theory Spec2Isabelle
  imports
    Main
    "HOL-Library.FSet"
    "HOL-Library.Finite_Map"
    "HOL-Library.Char_ord"
    "HOL-Library.List_Lexorder"
    "HOL-Library.Word"
begin

section \<open>Endpoint-probe ingress synthesis of net-contour\<close>

text \<open>
  The development embeds \<^verbatim>\<open>MakeEndpointProbeIngress\<close> of
  \<^verbatim>\<open>pkg/reconciler/contour/resources/kingress.go\<close>: the function that builds, for one
  generation of a Knative ingress, the child ingress whose bogus hosts are probed before
  the live routing is changed. Strings are byte lists, Go maps and string sets are finite
  maps and finite sets, Go slices are lists, and a Go pointer result is an option
  (\<open>None\<close> is \<^verbatim>\<open>nil\<close>). The arguments are the objects behind the pointers that
  the function receives: the parent ingress and the proxies exist, and a \<^verbatim>\<open>nil\<close> pointer,
  which the function would dereference, is not an input of the model. Calls to the logger
  are left out: they write a log line and do not touch any value the function computes.
\<close>

subsection \<open>Data of the Kubernetes, Contour and Knative APIs read or written by the function\<close>

type_synonym IngressVisibility = string

text \<open>
  \<^verbatim>\<open>intstr.IntOrString\<close>: an \<^verbatim>\<open>int32\<close> or a string. \<^verbatim>\<open>intstr.FromInt\<close> converts a Go
  \<^verbatim>\<open>int\<close> with \<^verbatim>\<open>int32(val)\<close>, which keeps the low 32 bits.
\<close>

datatype IntOrString = IntVal "32 word" | StrVal string

definition FromInt :: "int \<Rightarrow> IntOrString" where
  "FromInt val = IntVal (word_of_int val)"

text \<open>
  \<^verbatim>\<open>ServiceInfo\<close>, with the four fields that \<^verbatim>\<open>MakeEndpointProbeIngress\<close> reads and writes
  (lines 88-92, 111, 121, 126). The struct is declared in another file of the package; the
  fields and their types are those that the function uses.
\<close>

record ServiceInfo =
  Port :: IntOrString
  RawVisibilities :: "string fset"
  HasPath :: bool
  RewriteHost :: string

type_synonym ServiceMap = "(string, ServiceInfo) fmap"

text \<open>Contour's \<^verbatim>\<open>HTTPProxy\<close>: \<^verbatim>\<open>Status.CurrentStatus\<close>, the annotations and \<^verbatim>\<open>Spec.Routes\<close>.\<close>

record MatchCondition =
  Prefix :: string

record Service =
  svc_Name :: string
  svc_Port :: int

record Route =
  Conditions :: "MatchCondition list"
  Services :: "Service list"

record HTTPProxy =
  proxy_Annotations :: "(string, string) fmap"
  CurrentStatus :: string
  Routes :: "Route list"

text \<open>Knative's \<^verbatim>\<open>Ingress\<close>, its rules and the owner reference of its metadata.\<close>

record OwnerReference =
  APIVersion :: string
  Kind :: string
  ref_Name :: string
  ref_UID :: string
  Controller :: "bool option"
  BlockOwnerDeletion :: "bool option"

record IngressBackendSplit =
  ServiceName :: string
  ServiceNamespace :: string
  ServicePort :: IntOrString
  Percent :: int

record HTTPIngressPath =
  Path :: string
  path_RewriteHost :: string
  Splits :: "IngressBackendSplit list"

record HTTPIngressRuleValue =
  Paths :: "HTTPIngressPath list"

record IngressRule =
  Hosts :: "string list"
  Visibility :: IngressVisibility
  HTTP :: "HTTPIngressRuleValue option"

record Ingress =
  Name :: string
  Namespace :: string
  Generation :: int
  UID :: string
  Labels :: "(string, string) fmap"
  Annotations :: "(string, string) fmap"
  OwnerReferences :: "OwnerReference list"
  HTTPOption :: string
  Rules :: "IngressRule list"

definition HTTPOptionEnabled :: string where
  "HTTPOptionEnabled = ''Enabled''"

subsection \<open>What the function takes from its surroundings\<close>

text \<open>
  The constants \<^verbatim>\<open>ClassKey\<close> and \<^verbatim>\<open>EndpointsProbeKey\<close>, the naming function
  \<^verbatim>\<open>names.EndpointProbeIngress\<close> and the function \<^verbatim>\<open>ServiceNames\<close> are declared in other
  files of the repository. They are parameters of the model: every theorem holds for
  whatever they are. \<^verbatim>\<open>ServiceNames\<close> is taken as a function of the ingress that returns a
  fresh map, whose entries do not share their sets of visibilities.
\<close>

record Declarations =
  ClassKey :: string
  EndpointsProbeKey :: string
  EndpointProbeIngress :: "Ingress \<Rightarrow> string"
  ServiceNames :: "Ingress \<Rightarrow> ServiceMap"

text \<open>
  The configuration carried by the context: \<^verbatim>\<open>Contour.VisibilityClasses\<close>, a Go map from
  visibility to class name. Go does not fix the order in which \<^verbatim>\<open>range\<close> visits a map:
  every time a range over the map starts, it takes an order of its own. The range of line
  69 starts anew in every round of the loop over the previous state that gets past line 65,
  so a run is described by one order of visit for each round: \<open>VisibilityClasses ctx i\<close>
  lists the entries of the map in the order in which the range of round \<open>i\<close> visits them,
  the rounds counted from 0.
\<close>

record Context =
  VisibilityClasses :: "nat \<Rightarrow> (IngressVisibility \<times> string) list"

subsection \<open>Library functions\<close>

text \<open>Reading a Go map of strings: a missing key reads as the empty string.\<close>

definition index_string :: "(string, string) fmap \<Rightarrow> string \<Rightarrow> string" where
  "index_string m k = (case fmlookup m k of None \<Rightarrow> [] | Some v \<Rightarrow> v)"

text \<open>Reading the service map: a missing key reads as the zero \<^verbatim>\<open>ServiceInfo\<close>.\<close>

definition zero_ServiceInfo :: ServiceInfo where
  "zero_ServiceInfo = \<lparr>Port = IntVal 0, RawVisibilities = {||}, HasPath = False, RewriteHost = []\<rparr>"

definition index_sns :: "ServiceMap \<Rightarrow> string \<Rightarrow> ServiceInfo" where
  "index_sns sns name = (case fmlookup sns name of None \<Rightarrow> zero_ServiceInfo | Some si \<Rightarrow> si)"

text \<open>\<^verbatim>\<open>kmeta.UnionMaps\<close> copies its arguments into a new map, later arguments winning.\<close>

definition UnionMaps :: "(string, string) fmap \<Rightarrow> (string, string) fmap \<Rightarrow> (string, string) fmap" where
  "UnionMaps a b = a ++\<^sub>f b"

text \<open>
  \<^verbatim>\<open>kmeta.NewControllerRef\<close>: the owner reference of a controller, with the group, version
  and kind of Knative's ingress type.
\<close>

definition NewControllerRef :: "Ingress \<Rightarrow> OwnerReference" where
  "NewControllerRef ing =
     \<lparr>APIVersion = ''networking.internal.knative.dev/v1alpha1'',
      Kind = ''Ingress'',
      ref_Name = Name ing,
      ref_UID = UID ing,
      Controller = Some True,
      BlockOwnerDeletion = Some True\<rparr>"

text \<open>The verb \<^verbatim>\<open>%d\<close> of \<^verbatim>\<open>fmt.Sprintf\<close>: decimal digits, with a minus sign below zero.\<close>

definition digit_char :: "nat \<Rightarrow> char" where
  "digit_char d = char_of (48 + d)"

function digits :: "nat \<Rightarrow> string" where
  "digits n = (if n < 10 then [digit_char n] else digits (n div 10) @ [digit_char (n mod 10)])"
  by pat_completeness auto
termination
  by (relation "measure id") auto

declare digits.simps [simp del]

definition format_d :: "int \<Rightarrow> string" where
  "format_d i = (if i < 0 then CHR ''-'' # digits (nat (- i)) else digits (nat i))"

text \<open>
  Modelled from the spec: the method \<^verbatim>\<open>Visibilities\<close> of \<^verbatim>\<open>ServiceInfo\<close>, which is
  declared in another file of the package. The spec asks for one probe host per (service,
  visibility) pair, in a deterministic order, so the method lists the members of the set
  \<^verbatim>\<open>RawVisibilities\<close> once each, in ascending order.
\<close>

definition Visibilities :: "ServiceInfo \<Rightarrow> IngressVisibility list" where
  "Visibilities si = sorted_list_of_fset (RawVisibilities si)"

subsection \<open>The function\<close>

text \<open>
  Lines 68-73: the visibility of a previous proxy, by its class annotation. Every entry of
  the configuration is visited; a later match overwrites an earlier one.
\<close>

fun lookup_visibility :: "(IngressVisibility \<times> string) list \<Rightarrow> string \<Rightarrow> IngressVisibility \<Rightarrow> IngressVisibility" where
  "lookup_visibility [] ann vis = vis"
| "lookup_visibility ((v, class) # rest) ann vis =
     lookup_visibility rest ann (if class = ann then v else vis)"

text \<open>Lines 79-84: does the route have a condition with a prefix?\<close>

fun route_hasPath :: "MatchCondition list \<Rightarrow> bool \<Rightarrow> bool" where
  "route_hasPath [] hasPath = hasPath"
| "route_hasPath (cond # rest) hasPath =
     route_hasPath rest (if Prefix cond \<noteq> [] then True else hasPath)"

text \<open>
  Lines 85-96: the services of one route. An entry is created, with the port and the path
  flag of the route, only for a service that has none; then the visibility is inserted
  into the set of the entry.
\<close>

fun merge_services :: "IngressVisibility \<Rightarrow> bool \<Rightarrow> Service list \<Rightarrow> ServiceMap \<Rightarrow> ServiceMap" where
  "merge_services vis hasPath [] sns = sns"
| "merge_services vis hasPath (svc # rest) sns =
     (let si = (case fmlookup sns (svc_Name svc) of
                  None \<Rightarrow> \<lparr>Port = FromInt (svc_Port svc), RawVisibilities = {||},
                           HasPath = hasPath, RewriteHost = []\<rparr>
                | Some si \<Rightarrow> si);
          si' = si\<lparr>RawVisibilities := finsert vis (RawVisibilities si)\<rparr>
      in merge_services vis hasPath rest (fmupd (svc_Name svc) si' sns))"

text \<open>Lines 78-97: the routes of one proxy.\<close>

fun merge_routes :: "IngressVisibility \<Rightarrow> Route list \<Rightarrow> ServiceMap \<Rightarrow> ServiceMap" where
  "merge_routes vis [] sns = sns"
| "merge_routes vis (route # rest) sns =
     merge_routes vis rest
       (merge_services vis (route_hasPath (Conditions route) False) (Services route) sns)"

text \<open>
  Lines 60-97: the body of the loop over the previous state, for the proxy of one round. A
  proxy whose status is not \<^verbatim>\<open>valid\<close>, or whose visibility comes out empty, is passed over
  (\<^verbatim>\<open>continue\<close>): the map stays as it is.
\<close>

definition proxy_visibility :: "Declarations \<Rightarrow> Context \<Rightarrow> nat \<Rightarrow> HTTPProxy \<Rightarrow> IngressVisibility" where
  "proxy_visibility d ctx i proxy =
     lookup_visibility (VisibilityClasses ctx i)
       (index_string (proxy_Annotations proxy) (ClassKey d)) []"

definition merge_proxy :: "Declarations \<Rightarrow> Context \<Rightarrow> nat \<Rightarrow> HTTPProxy \<Rightarrow> ServiceMap \<Rightarrow> ServiceMap" where
  "merge_proxy d ctx i proxy sns =
     (if CurrentStatus proxy \<noteq> ''valid'' then sns
      else let vis = proxy_visibility d ctx i proxy in
        if vis = [] then sns
        else merge_routes vis (Routes proxy) sns)"

text \<open>
  Lines 59-98: the loop over the proxies of the previous generation, from the round
  \<open>i\<close> on.
\<close>

fun merge_proxies :: "Declarations \<Rightarrow> Context \<Rightarrow> nat \<Rightarrow> HTTPProxy list \<Rightarrow> ServiceMap \<Rightarrow> ServiceMap" where
  "merge_proxies d ctx i [] sns = sns"
| "merge_proxies d ctx i (proxy # rest) sns =
     merge_proxies d ctx (Suc i) rest (merge_proxy d ctx i proxy sns)"

text \<open>Lines 56-98: the service map after the loop over the previous state.\<close>

definition merged_services :: "Declarations \<Rightarrow> Context \<Rightarrow> Ingress \<Rightarrow> HTTPProxy list \<Rightarrow> ServiceMap" where
  "merged_services d ctx ing previousState = merge_proxies d ctx 0 previousState (ServiceNames d ing)"

text \<open>Line 117: the bogus host of a service.\<close>

definition probe_host :: "string \<Rightarrow> int \<Rightarrow> string \<Rightarrow> string \<Rightarrow> string" where
  "probe_host name gen ingName ingNamespace =
     name @ ''.gen-'' @ format_d gen @ ''.'' @ ingName @ ''.'' @ ingNamespace @ ''.net-contour.invalid''"

text \<open>Lines 116-132: the rule appended for one service and one visibility.\<close>

definition probe_rule :: "Ingress \<Rightarrow> string \<Rightarrow> ServiceInfo \<Rightarrow> IngressVisibility \<Rightarrow> IngressRule" where
  "probe_rule ing name si vis =
     \<lparr>Hosts = [probe_host name (Generation ing) (Name ing) (Namespace ing)],
      Visibility = vis,
      HTTP = Some \<lparr>Paths = [\<lparr>Path = [],
                             path_RewriteHost = RewriteHost si,
                             Splits = [\<lparr>ServiceName = name,
                                        ServiceNamespace = Namespace ing,
                                        ServicePort = Port si,
                                        Percent = 100\<rparr>]\<rparr>]\<rparr>\<rparr>"

text \<open>Lines 109-134: the rules, service by service in the given order.\<close>

fun probe_rules :: "Ingress \<Rightarrow> ServiceMap \<Rightarrow> string list \<Rightarrow> IngressRule list" where
  "probe_rules ing sns [] = []"
| "probe_rules ing sns (name # rest) =
     (let si = index_sns sns name in
      if HasPath si then probe_rules ing sns rest
      else map (probe_rule ing name si) (Visibilities si) @ probe_rules ing sns rest)"

text \<open>
  Lines 38-137. The keys of the map are put in a string set, and \<^verbatim>\<open>List\<close> returns them in
  ascending order. The function returns the pointer to the child ingress it allocated at
  its start, on every path.
\<close>

definition MakeEndpointProbeIngress :: "Declarations \<Rightarrow> Context \<Rightarrow> Ingress \<Rightarrow> HTTPProxy list \<Rightarrow> Ingress option" where
  "MakeEndpointProbeIngress d ctx ing previousState =
     (let childIng = \<lparr>Name = EndpointProbeIngress d ing,
                      Namespace = Namespace ing,
                      Generation = 0,
                      UID = [],
                      Labels = Labels ing,
                      Annotations = UnionMaps (Annotations ing) (fmupd (EndpointsProbeKey d) ''true'' fmempty),
                      OwnerReferences = [NewControllerRef ing],
                      HTTPOption = HTTPOptionEnabled,
                      Rules = []\<rparr>;
          sns = merged_services d ctx ing previousState;
          l = sorted_list_of_fset (fmdom sns)
      in Some (childIng\<lparr>Rules := Rules childIng @ probe_rules ing sns l\<rparr>))"

subsection \<open>Views of the inputs and of the result\<close>

text \<open>The backends a rule routes to, the services among them, and the services with the
  visibility of the rule.\<close>

definition rule_splits :: "IngressRule \<Rightarrow> IngressBackendSplit list" where
  "rule_splits r = (case HTTP r of None \<Rightarrow> [] | Some h \<Rightarrow> concat (map Splits (Paths h)))"

definition rule_services :: "IngressRule \<Rightarrow> string list" where
  "rule_services r = map ServiceName (rule_splits r)"

definition rule_pairs :: "IngressRule \<Rightarrow> (string \<times> IngressVisibility) list" where
  "rule_pairs r = map (\<lambda>n. (n, Visibility r)) (rule_services r)"

text \<open>The same for a result of the function: nothing for \<^verbatim>\<open>nil\<close>.\<close>

definition probed_services :: "Ingress option \<Rightarrow> string list" where
  "probed_services res = (case res of None \<Rightarrow> [] | Some childIng \<Rightarrow> concat (map rule_services (Rules childIng)))"

definition probed_pairs :: "Ingress option \<Rightarrow> (string \<times> IngressVisibility) list" where
  "probed_pairs res = (case res of None \<Rightarrow> [] | Some childIng \<Rightarrow> concat (map rule_pairs (Rules childIng)))"

definition probe_hosts :: "Ingress option \<Rightarrow> string list" where
  "probe_hosts res = (case res of None \<Rightarrow> [] | Some childIng \<Rightarrow> concat (map Hosts (Rules childIng)))"

text \<open>
  What the loop over the previous state sees, in the order in which it sees it: for every
  proxy that is not passed over, every route and every service of the route, the name of
  the service, the visibility of the proxy, the path flag of the route and the port.
\<close>

record Observation =
  obs_Name :: string
  obs_Visibility :: IngressVisibility
  obs_HasPath :: bool
  obs_Port :: int

definition route_observations :: "IngressVisibility \<Rightarrow> Route \<Rightarrow> Observation list" where
  "route_observations vis route =
     map (\<lambda>svc. \<lparr>obs_Name = svc_Name svc, obs_Visibility = vis,
                  obs_HasPath = route_hasPath (Conditions route) False, obs_Port = svc_Port svc\<rparr>)
         (Services route)"

definition proxy_observations :: "Declarations \<Rightarrow> Context \<Rightarrow> nat \<Rightarrow> HTTPProxy \<Rightarrow> Observation list" where
  "proxy_observations d ctx i proxy =
     (if CurrentStatus proxy = ''valid'' \<and> proxy_visibility d ctx i proxy \<noteq> []
      then concat (map (route_observations (proxy_visibility d ctx i proxy)) (Routes proxy))
      else [])"

fun observations_from :: "Declarations \<Rightarrow> Context \<Rightarrow> nat \<Rightarrow> HTTPProxy list \<Rightarrow> Observation list" where
  "observations_from d ctx i [] = []"
| "observations_from d ctx i (proxy # rest) =
     proxy_observations d ctx i proxy @ observations_from d ctx (Suc i) rest"

definition observations :: "Declarations \<Rightarrow> Context \<Rightarrow> HTTPProxy list \<Rightarrow> Observation list" where
  "observations d ctx previousState = observations_from d ctx 0 previousState"

text \<open>The visibilities observed for a service, and the first observation of it.\<close>

definition observed_visibilities :: "Observation list \<Rightarrow> string \<Rightarrow> IngressVisibility fset" where
  "observed_visibilities obs n = fset_of_list (map obs_Visibility (filter (\<lambda>ob. obs_Name ob = n) obs))"

definition first_observation :: "Observation list \<Rightarrow> string \<Rightarrow> Observation option" where
  "first_observation obs n = find (\<lambda>ob. obs_Name ob = n) obs"

text \<open>Lines 86-95 for one observation.\<close>

definition observe :: "Observation \<Rightarrow> ServiceMap \<Rightarrow> ServiceMap" where
  "observe ob sns =
     (let si = (case fmlookup sns (obs_Name ob) of
                  None \<Rightarrow> \<lparr>Port = FromInt (obs_Port ob), RawVisibilities = {||},
                           HasPath = obs_HasPath ob, RewriteHost = []\<rparr>
                | Some si \<Rightarrow> si)
      in fmupd (obs_Name ob) (si\<lparr>RawVisibilities := finsert (obs_Visibility ob) (RawVisibilities si)\<rparr>) sns)"

text \<open>
  A class name is unshared in a map of visibility classes when at most one visibility is
  mapped to it.
\<close>

definition class_unshared :: "(IngressVisibility \<times> string) set \<Rightarrow> string \<Rightarrow> bool" where
  "class_unshared classes class =
     (\<forall>x \<in> classes. \<forall>y \<in> classes. snd x = class \<and> snd y = class \<longrightarrow> fst x = fst y)"

text \<open>
  A run from which round \<open>k\<close> is taken out: the rounds after it move up by one and keep
  their orders of visit.
\<close>

definition without_round :: "nat \<Rightarrow> Context \<Rightarrow> Context" where
  "without_round k ctx =
     ctx\<lparr>VisibilityClasses := (\<lambda>i. VisibilityClasses ctx (if i < k then i else Suc i))\<rparr>"

text \<open>The services that the routes of a proxy name.\<close>

definition proxy_backends :: "HTTPProxy \<Rightarrow> string list" where
  "proxy_backends proxy = concat (map (\<lambda>route. map svc_Name (Services route)) (Routes proxy))"

text \<open>
  The spec's wording of the exclusion policy speaks of a service that has path-based rules
  in the previous committed state: some route of some previous proxy has a condition with a
  prefix and routes to the service.
\<close>

definition has_path_rules :: "HTTPProxy list \<Rightarrow> string \<Rightarrow> bool" where
  "has_path_rules previousState name =
     list_ex (\<lambda>proxy. list_ex (\<lambda>route. route_hasPath (Conditions route) False \<and>
                                         list_ex (\<lambda>svc. svc_Name svc = name) (Services route))
                               (Routes proxy))
             previousState"

subsection \<open>Concrete inputs\<close>

text \<open>
  Declarations for an ingress without rules, for which \<^verbatim>\<open>ServiceNames\<close> returns the empty
  map, and for an ingress that routes the service \<^verbatim>\<open>svc-a\<close> on the external visibility.
\<close>

definition ex_decls :: Declarations where
  "ex_decls =
     \<lparr>ClassKey = ''projectcontour.io/ingress.class'',
      EndpointsProbeKey = ''networking.knative.dev/endpoints-probe'',
      EndpointProbeIngress = (\<lambda>ing. Name ing @ ''--ep''),
      ServiceNames = (\<lambda>ing. fmempty)\<rparr>"

definition ex_info_a :: ServiceInfo where
  "ex_info_a = \<lparr>Port = IntVal 80, RawVisibilities = {|''ExternalIP''|}, HasPath = False, RewriteHost = []\<rparr>"

definition ex_decls_a :: Declarations where
  "ex_decls_a =
     \<lparr>ClassKey = ''projectcontour.io/ingress.class'',
      EndpointsProbeKey = ''networking.knative.dev/endpoints-probe'',
      EndpointProbeIngress = (\<lambda>ing. Name ing @ ''--ep''),
      ServiceNames = (\<lambda>ing. fmupd ''svc-a'' ex_info_a fmempty)\<rparr>"

definition ex_ing :: Ingress where
  "ex_ing =
     \<lparr>Name = ''foo'', Namespace = ''ns'', Generation = 7, UID = ''uid-1'',
      Labels = fmempty, Annotations = fmempty, OwnerReferences = [],
      HTTPOption = ''Enabled'', Rules = []\<rparr>"

definition ex_ing_a :: Ingress where
  "ex_ing_a =
     \<lparr>Name = ''foo'', Namespace = ''ns'', Generation = 8, UID = ''uid-1'',
      Labels = fmempty, Annotations = fmempty, OwnerReferences = [],
      HTTPOption = ''Enabled'',
      Rules = [\<lparr>Hosts = [''a.example.com''], Visibility = ''ExternalIP'',
                HTTP = Some \<lparr>Paths = [\<lparr>Path = [], path_RewriteHost = [],
                                       Splits = [\<lparr>ServiceName = ''svc-a'', ServiceNamespace = ''ns'',
                                                  ServicePort = IntVal 80, Percent = 100\<rparr>]\<rparr>]\<rparr>\<rparr>]\<rparr>"

text \<open>
  Visibility classes. One class per visibility, every round visiting external first, or
  every round visiting cluster-local first. One class shared by both visibilities, every
  round visiting external first, or the first round visiting cluster-local first and the
  later rounds external first.
\<close>

definition ex_ctx :: Context where
  "ex_ctx = \<lparr>VisibilityClasses =
     (\<lambda>i. [(''ExternalIP'', ''contour-external''), (''ClusterLocal'', ''contour-internal'')])\<rparr>"

definition ex_ctx_rev :: Context where
  "ex_ctx_rev = \<lparr>VisibilityClasses =
     (\<lambda>i. [(''ClusterLocal'', ''contour-internal''), (''ExternalIP'', ''contour-external'')])\<rparr>"

definition ex_ctx_shared :: Context where
  "ex_ctx_shared = \<lparr>VisibilityClasses =
     (\<lambda>i. [(''ExternalIP'', ''contour''), (''ClusterLocal'', ''contour'')])\<rparr>"

definition ex_ctx_shared_mixed :: Context where
  "ex_ctx_shared_mixed = \<lparr>VisibilityClasses =
     (\<lambda>i. if i = 0 then [(''ClusterLocal'', ''contour''), (''ExternalIP'', ''contour'')]
          else [(''ExternalIP'', ''contour''), (''ClusterLocal'', ''contour'')])\<rparr>"

text \<open>Proxies of a previous generation.\<close>

definition ex_class :: "string \<Rightarrow> (string, string) fmap" where
  "ex_class class = fmupd ''projectcontour.io/ingress.class'' class fmempty"

definition ex_svc :: "string \<Rightarrow> Service" where
  "ex_svc name = \<lparr>svc_Name = name, svc_Port = 80\<rparr>"

definition ex_proxy_external_ba :: HTTPProxy where
  "ex_proxy_external_ba =
     \<lparr>proxy_Annotations = ex_class ''contour-external'', CurrentStatus = ''valid'',
      Routes = [\<lparr>Conditions = [], Services = [ex_svc ''svc-b'', ex_svc ''svc-a'']\<rparr>]\<rparr>"

definition ex_proxy_internal_a :: HTTPProxy where
  "ex_proxy_internal_a =
     \<lparr>proxy_Annotations = ex_class ''contour-internal'', CurrentStatus = ''valid'',
      Routes = [\<lparr>Conditions = [], Services = [ex_svc ''svc-a'']\<rparr>]\<rparr>"

definition ex_proxy_root_then_path :: HTTPProxy where
  "ex_proxy_root_then_path =
     \<lparr>proxy_Annotations = ex_class ''contour-external'', CurrentStatus = ''valid'',
      Routes = [\<lparr>Conditions = [], Services = [ex_svc ''svc-a'']\<rparr>,
                \<lparr>Conditions = [\<lparr>Prefix = ''/path''\<rparr>], Services = [ex_svc ''svc-a'']\<rparr>]\<rparr>"

definition ex_proxy_path_a :: HTTPProxy where
  "ex_proxy_path_a =
     \<lparr>proxy_Annotations = ex_class ''contour-internal'', CurrentStatus = ''valid'',
      Routes = [\<lparr>Conditions = [\<lparr>Prefix = ''/path''\<rparr>], Services = [ex_svc ''svc-a'']\<rparr>]\<rparr>"

definition ex_proxy_path_c :: HTTPProxy where
  "ex_proxy_path_c =
     \<lparr>proxy_Annotations = ex_class ''contour-external'', CurrentStatus = ''valid'',
      Routes = [\<lparr>Conditions = [\<lparr>Prefix = ''/path''\<rparr>], Services = [ex_svc ''svc-c'']\<rparr>]\<rparr>"

definition ex_proxy_invalid :: HTTPProxy where
  "ex_proxy_invalid =
     \<lparr>proxy_Annotations = ex_class ''contour-external'', CurrentStatus = ''invalid'',
      Routes = [\<lparr>Conditions = [], Services = [ex_svc ''svc-z'']\<rparr>]\<rparr>"

definition ex_proxy_foreign :: HTTPProxy where
  "ex_proxy_foreign =
     \<lparr>proxy_Annotations = ex_class ''nginx'', CurrentStatus = ''valid'',
      Routes = [\<lparr>Conditions = [], Services = [ex_svc ''svc-z'']\<rparr>]\<rparr>"

definition ex_proxy_shared :: HTTPProxy where
  "ex_proxy_shared =
     \<lparr>proxy_Annotations = ex_class ''contour'', CurrentStatus = ''valid'',
      Routes = [\<lparr>Conditions = [], Services = [ex_svc ''svc-a'']\<rparr>]\<rparr>"

definition ex_proxy_shared_b :: HTTPProxy where
  "ex_proxy_shared_b =
     \<lparr>proxy_Annotations = ex_class ''contour'', CurrentStatus = ''valid'',
      Routes = [\<lparr>Conditions = [], Services = [ex_svc ''svc-b'']\<rparr>]\<rparr>"

section \<open>Properties\<close>

subsection \<open>The visibility of a previous proxy\<close>

lemma lookup_visibility_no_match:
  "\<forall>(v, c) \<in> set vc. c \<noteq> ann \<Longrightarrow> lookup_visibility vc ann vis = vis"
  by (induction vc ann vis rule: lookup_visibility.induct) auto

lemma lookup_visibility_unique:
  assumes "(v, ann) \<in> set vc" and "\<forall>v'. (v', ann) \<in> set vc \<longrightarrow> v' = v"
  shows "lookup_visibility vc ann vis = v"
  using assms
proof (induction vc arbitrary: vis)
  case Nil
  from Nil.prems(1) show ?case by simp
next
  case (Cons p rest)
  obtain v1 c1 where p: "p = (v1, c1)" by (cases p)
  have sub: "(v', ann) \<in> set rest \<Longrightarrow> (v', ann) \<in> set (p # rest)" for v'
    by simp
  have u_rest: "\<forall>v'. (v', ann) \<in> set rest \<longrightarrow> v' = v"
    using Cons.prems(2) sub by blast
  show ?case
  proof (cases "(v, ann) \<in> set rest")
    case True
    have "lookup_visibility rest ann (if c1 = ann then v1 else vis) = v"
      by (rule Cons.IH[OF True u_rest])
    then show ?thesis by (simp only: p lookup_visibility.simps)
  next
    case False
    from Cons.prems(1) False have "(v, ann) = p" by simp
    then have eq: "v1 = v" "c1 = ann" by (simp_all add: p)
    have "\<forall>(v', c) \<in> set rest. c \<noteq> ann"
      using u_rest False by blast
    then have "lookup_visibility rest ann v = v"
      by (rule lookup_visibility_no_match)
    then show ?thesis by (simp add: p eq)
  qed
qed

lemma lookup_visibility_cong:
  assumes "set vc1 = set vc2" and "class_unshared (set vc1) ann"
  shows "lookup_visibility vc1 ann vis = lookup_visibility vc2 ann vis"
proof (cases "\<exists>v. (v, ann) \<in> set vc1")
  case True
  then obtain v where v: "(v, ann) \<in> set vc1" by blast
  have u: "\<forall>v'. (v', ann) \<in> set vc1 \<longrightarrow> v' = v"
  proof (intro allI impI)
    fix v' assume v': "(v', ann) \<in> set vc1"
    from assms(2) v' v have "snd (v', ann) = ann \<and> snd (v, ann) = ann \<longrightarrow> fst (v', ann) = fst (v, ann)"
      unfolding class_unshared_def by blast
    then show "v' = v" by simp
  qed
  have v2: "(v, ann) \<in> set vc2"
    using v unfolding assms(1) .
  have u2: "\<forall>v'. (v', ann) \<in> set vc2 \<longrightarrow> v' = v"
    using u unfolding assms(1) .
  show ?thesis
    by (simp only: lookup_visibility_unique[OF v u] lookup_visibility_unique[OF v2 u2])
next
  case False
  then have n1: "\<forall>(v, c) \<in> set vc1. c \<noteq> ann" by auto
  then have n2: "\<forall>(v, c) \<in> set vc2. c \<noteq> ann"
    unfolding assms(1) .
  show ?thesis
    by (simp only: lookup_visibility_no_match[OF n1] lookup_visibility_no_match[OF n2])
qed

subsection \<open>The loop over the previous state, observation by observation\<close>

lemma merge_services_fold:
  "merge_services vis hp svcs sns =
     fold observe (map (\<lambda>svc. \<lparr>obs_Name = svc_Name svc, obs_Visibility = vis,
                                obs_HasPath = hp, obs_Port = svc_Port svc\<rparr>) svcs) sns"
  by (induction svcs arbitrary: sns) (simp_all add: observe_def Let_def split: option.splits)

lemma merge_routes_fold:
  "merge_routes vis routes sns = fold observe (concat (map (route_observations vis) routes)) sns"
  by (induction routes arbitrary: sns) (simp_all add: merge_services_fold route_observations_def)

lemma merge_proxies_fold:
  "merge_proxies d ctx i ps sns = fold observe (observations_from d ctx i ps) sns"
  by (induction ps arbitrary: i sns)
     (simp_all add: proxy_observations_def merge_proxy_def merge_routes_fold Let_def)

lemma observe_lookup_other:
  "obs_Name ob \<noteq> n \<Longrightarrow> fmlookup (observe ob sns) n = fmlookup sns n"
  by (simp add: observe_def Let_def)

lemma observe_lookup_Some:
  "fmlookup sns (obs_Name ob) = Some si \<Longrightarrow>
   fmlookup (observe ob sns) (obs_Name ob) =
     Some (si\<lparr>RawVisibilities := finsert (obs_Visibility ob) (RawVisibilities si)\<rparr>)"
  by (simp add: observe_def)

lemma observe_lookup_None:
  "fmlookup sns (obs_Name ob) = None \<Longrightarrow>
   fmlookup (observe ob sns) (obs_Name ob) =
     Some \<lparr>Port = FromInt (obs_Port ob), RawVisibilities = {|obs_Visibility ob|},
           HasPath = obs_HasPath ob, RewriteHost = []\<rparr>"
  by (simp add: observe_def)

lemma observed_visibilities_Nil [simp]: "observed_visibilities [] n = {||}"
  by (simp add: observed_visibilities_def)

lemma observed_visibilities_Cons [simp]:
  "observed_visibilities (ob # obs) n =
     (if obs_Name ob = n then finsert (obs_Visibility ob) (observed_visibilities obs n)
      else observed_visibilities obs n)"
  by (simp add: observed_visibilities_def)

lemma fold_observe_Some:
  "fmlookup sns n = Some si \<Longrightarrow>
   fmlookup (fold observe obs sns) n =
     Some (si\<lparr>RawVisibilities := RawVisibilities si |\<union>| observed_visibilities obs n\<rparr>)"
proof (induction obs arbitrary: sns si)
  case Nil
  then show ?case by simp
next
  case (Cons ob obs)
  show ?case
  proof (cases "obs_Name ob = n")
    case True
    with Cons.prems have
      "fmlookup (observe ob sns) n = Some (si\<lparr>RawVisibilities := finsert (obs_Visibility ob) (RawVisibilities si)\<rparr>)"
      using observe_lookup_Some[of sns ob si] by simp
    from Cons.IH[OF this] show ?thesis using True by simp
  next
    case False
    with Cons.prems have "fmlookup (observe ob sns) n = Some si"
      by (simp add: observe_lookup_other)
    from Cons.IH[OF this] show ?thesis using False by simp
  qed
qed

lemma fold_observe_None:
  "fmlookup sns n = None \<Longrightarrow>
   fmlookup (fold observe obs sns) n =
     (case find (\<lambda>ob. obs_Name ob = n) obs of
        None \<Rightarrow> None
      | Some ob \<Rightarrow> Some \<lparr>Port = FromInt (obs_Port ob),
                          RawVisibilities = observed_visibilities obs n,
                          HasPath = obs_HasPath ob, RewriteHost = []\<rparr>)"
proof (induction obs arbitrary: sns)
  case Nil
  then show ?case by simp
next
  case (Cons ob obs)
  show ?case
  proof (cases "obs_Name ob = n")
    case True
    with Cons.prems have
      "fmlookup (observe ob sns) n =
         Some \<lparr>Port = FromInt (obs_Port ob), RawVisibilities = {|obs_Visibility ob|},
               HasPath = obs_HasPath ob, RewriteHost = []\<rparr>"
      using observe_lookup_None[of sns ob] by simp
    from fold_observe_Some[OF this, of obs] show ?thesis using True by simp
  next
    case False
    with Cons.prems have "fmlookup (observe ob sns) n = None"
      by (simp add: observe_lookup_other)
    from Cons.IH[OF this] show ?thesis using False by (simp split: option.splits)
  qed
qed

lemma fold_observe_dom:
  "fmdom (fold observe obs sns) = fmdom sns |\<union>| fset_of_list (map obs_Name obs)"
  by (induction obs arbitrary: sns) (auto simp: observe_def Let_def)

subsection \<open>The decimal form of the generation and the probe host\<close>

lemma of_char_digit_char: "d < 10 \<Longrightarrow> (of_char (digit_char d) :: nat) = 48 + d"
proof -
  assume "d < 10"
  then have "(48 + d) mod 256 = 48 + d" by (intro mod_less) linarith
  then show ?thesis unfolding digit_char_def by (simp only: of_char_of)
qed

lemma digit_char_inj: "d < 10 \<Longrightarrow> e < 10 \<Longrightarrow> digit_char d = digit_char e \<Longrightarrow> d = e"
proof -
  assume d: "d < 10" and e: "e < 10" and eq: "digit_char d = digit_char e"
  have "48 + d = (of_char (digit_char d) :: nat)" using of_char_digit_char[OF d] by (rule sym)
  also have "\<dots> = of_char (digit_char e)" by (simp only: eq)
  also have "\<dots> = 48 + e" by (rule of_char_digit_char[OF e])
  finally show "d = e" by (simp only: add_left_cancel)
qed

lemma digit_char_neq:
  assumes "d < 10"
  shows "digit_char d \<noteq> CHR ''.''" and "digit_char d \<noteq> CHR ''-''"
proof -
  have a: "(of_char (digit_char d) :: nat) = 48 + d"
    by (rule of_char_digit_char[OF assms])
  have b: "(of_char CHR ''.'' :: nat) = 46" and c: "(of_char CHR ''-'' :: nat) = 45"
    by simp_all
  show "digit_char d \<noteq> CHR ''.''"
  proof
    assume "digit_char d = CHR ''.''"
    then have "(of_char (digit_char d) :: nat) = of_char CHR ''.''" by (rule arg_cong)
    with a b show False by linarith
  qed
  show "digit_char d \<noteq> CHR ''-''"
  proof
    assume "digit_char d = CHR ''-''"
    then have "(of_char (digit_char d) :: nat) = of_char CHR ''-''" by (rule arg_cong)
    with a c show False by linarith
  qed
qed

lemma digits_not_Nil: "digits n \<noteq> []"
  by (subst digits.simps) simp

lemma digits_set: "c \<in> set (digits n) \<Longrightarrow> \<exists>d<10. c = digit_char d"
proof (induction n rule: digits.induct)
  case (1 n)
  show ?case
  proof (cases "n < 10")
    case True
    with "1.prems" show ?thesis by (subst (asm) digits.simps) auto
  next
    case False
    from "1.prems" have "c \<in> set (digits (n div 10)) \<or> c = digit_char (n mod 10)"
      by (subst (asm) digits.simps) (use False in auto)
    then show ?thesis
    proof
      assume "c \<in> set (digits (n div 10))"
      with "1.IH" False show ?thesis by simp
    next
      assume "c = digit_char (n mod 10)"
      moreover have "n mod 10 < 10" by simp
      ultimately show ?thesis by blast
    qed
  qed
qed

lemma digits_inj: "digits n = digits m \<Longrightarrow> n = m"
proof (induction n arbitrary: m rule: digits.induct)
  case (1 n)
  show ?case
  proof (cases "n < 10")
    case n: True
    show ?thesis
    proof (cases "m < 10")
      case True
      with n "1.prems" show ?thesis
        by (simp add: digits.simps[of n] digits.simps[of m] digit_char_inj)
    next
      case False
      with n "1.prems" show ?thesis
        using digits_not_Nil[of "m div 10"]
        by (simp add: digits.simps[of n] digits.simps[of m])
    qed
  next
    case n: False
    show ?thesis
    proof (cases "m < 10")
      case True
      with n "1.prems" show ?thesis
        using digits_not_Nil[of "n div 10"]
        by (simp add: digits.simps[of n] digits.simps[of m])
    next
      case False
      with n "1.prems" have
        a: "digits (n div 10) = digits (m div 10)" and
        b: "digit_char (n mod 10) = digit_char (m mod 10)"
        by (simp_all add: digits.simps[of n] digits.simps[of m])
      from "1.IH"[OF n a] have "n div 10 = m div 10" .
      moreover from b have "n mod 10 = m mod 10"
        by (intro digit_char_inj) simp_all
      ultimately show ?thesis
        by (metis div_mult_mod_eq)
    qed
  qed
qed

lemma hd_digits: "\<exists>d<10. hd (digits n) = digit_char d"
  using digits_set[of "hd (digits n)" n] digits_not_Nil[of n] by simp

lemma format_d_inj: "format_d i = format_d j \<Longrightarrow> i = j"
proof -
  assume eq: "format_d i = format_d j"
  have neg: "hd (digits k) \<noteq> CHR ''-''" for k
    using hd_digits[of k] digit_char_neq(2) by metis
  have cons: "digits k \<noteq> CHR ''-'' # s" for k s
    using neg[of k] by (metis list.sel(1))
  show ?thesis
  proof (cases "i < 0")
    case i: True
    show ?thesis
    proof (cases "j < 0")
      case True
      with i eq have "digits (nat (- i)) = digits (nat (- j))" by (simp add: format_d_def)
      then have "nat (- i) = nat (- j)" by (rule digits_inj)
      with i True show ?thesis by simp
    next
      case False
      with i eq cons show ?thesis by (simp add: format_d_def) metis
    qed
  next
    case i: False
    show ?thesis
    proof (cases "j < 0")
      case True
      with i eq cons show ?thesis by (simp add: format_d_def)
    next
      case False
      with i eq have "digits (nat i) = digits (nat j)" by (simp add: format_d_def)
      then have "nat i = nat j" by (rule digits_inj)
      with i False show ?thesis by simp
    qed
  qed
qed

lemma format_d_no_dot: "CHR ''.'' \<notin> set (format_d i)"
proof -
  have "CHR ''.'' \<notin> set (digits k)" for k
    using digits_set[of "CHR ''.''" k] digit_char_neq(1) by metis
  then show ?thesis by (simp add: format_d_def)
qed

lemma first_split:
  "x \<notin> set xs \<Longrightarrow> x \<notin> set xs' \<Longrightarrow> xs @ x # ys = xs' @ x # ys' \<Longrightarrow> xs = xs' \<and> ys = ys'"
proof (induction xs arbitrary: xs')
  case Nil
  then show ?case by (cases xs') auto
next
  case (Cons a xs)
  then show ?case by (cases xs') auto
qed

lemma gen_split:
  assumes "n @ CHR ''.'' # a = n' @ CHR ''.'' # a'" and "CHR ''.'' \<notin> set a" and "CHR ''.'' \<notin> set a'"
  shows "n = n' \<and> a = a'"
proof -
  from assms(1) have "rev (n @ CHR ''.'' # a) = rev (n' @ CHR ''.'' # a')"
    by (rule arg_cong)
  then have e: "rev a @ CHR ''.'' # rev n = rev a' @ CHR ''.'' # rev n'"
    by (simp only: rev_append rev.simps append_assoc append_Cons append_Nil)
  have h: "CHR ''.'' \<notin> set (rev a)" and h': "CHR ''.'' \<notin> set (rev a')"
    using assms(2,3) by (simp_all only: set_rev not_False_eq_True)
  have "rev a = rev a' \<and> rev n = rev n'"
    by (rule first_split[OF h h' e])
  then show ?thesis by (simp only: rev_is_rev_conv)
qed

lemma probe_host_inj:
  assumes "probe_host n g i ns = probe_host n' g' i ns"
  shows "n = n' \<and> g = g'"
proof -
  have "CHR ''.'' \<notin> set (''gen-'' @ format_d g)" "CHR ''.'' \<notin> set (''gen-'' @ format_d g')"
    using format_d_no_dot[of g] format_d_no_dot[of g'] by simp_all
  moreover from assms have "n @ CHR ''.'' # (''gen-'' @ format_d g) = n' @ CHR ''.'' # (''gen-'' @ format_d g')"
    by (simp add: probe_host_def)
  ultimately have "n = n' \<and> ''gen-'' @ format_d g = ''gen-'' @ format_d g'"
    using gen_split by blast
  then have "n = n'" and "format_d g = format_d g'"
    by simp_all
  then show ?thesis using format_d_inj[of g g'] by blast
qed

subsection \<open>The rules of the child ingress\<close>

lemma Visibilities_set [simp]: "set (Visibilities si) = fset (RawVisibilities si)"
  by (simp add: Visibilities_def)

lemma Visibilities_distinct [simp]: "distinct (Visibilities si)"
  by (simp add: Visibilities_def sorted_list_of_fset.rep_eq)

lemma Visibilities_sorted [simp]: "sorted (Visibilities si)"
  by (simp add: Visibilities_def sorted_list_of_fset.rep_eq)

lemma index_sns_Some: "fmlookup sns n = Some si \<Longrightarrow> index_sns sns n = si"
  by (simp add: index_sns_def)

lemma index_sns_dom: "n |\<in>| fmdom sns \<Longrightarrow> fmlookup sns n = Some (index_sns sns n)"
  by (auto simp: index_sns_def fmdom.rep_eq dom_def split: option.splits)

lemma rule_splits_probe_rule [simp]:
  "rule_splits (probe_rule ing n si v) =
     [\<lparr>ServiceName = n, ServiceNamespace = Namespace ing, ServicePort = Port si, Percent = 100\<rparr>]"
  by (simp add: rule_splits_def probe_rule_def)

lemma rule_services_probe_rule [simp]: "rule_services (probe_rule ing n si v) = [n]"
  by (simp add: rule_services_def)

lemma rule_pairs_probe_rule [simp]: "rule_pairs (probe_rule ing n si v) = [(n, v)]"
  by (simp add: rule_pairs_def) (simp add: probe_rule_def)

lemma Hosts_probe_rule [simp]:
  "Hosts (probe_rule ing n si v) = [probe_host n (Generation ing) (Name ing) (Namespace ing)]"
  by (simp add: probe_rule_def)

lemma in_probe_rules:
  "r \<in> set (probe_rules ing sns l) \<longleftrightarrow>
     (\<exists>n \<in> set l. \<not> HasPath (index_sns sns n) \<and>
        (\<exists>v. v |\<in>| RawVisibilities (index_sns sns n) \<and> r = probe_rule ing n (index_sns sns n) v))"
  by (induction l) (auto simp: Let_def)

lemma probe_rules_services:
  "concat (map rule_services (probe_rules ing sns l)) =
     concat (map (\<lambda>n. if HasPath (index_sns sns n) then []
                       else replicate (length (Visibilities (index_sns sns n))) n) l)"
proof (induction l)
  case Nil
  then show ?case by simp
next
  case (Cons n l)
  have "concat (map rule_services (map (probe_rule ing n si) vs)) = replicate (length vs) n" for si vs
    by (induction vs) simp_all
  with Cons show ?case by (simp add: Let_def)
qed

lemma probe_rules_pairs:
  "concat (map rule_pairs (probe_rules ing sns l)) =
     concat (map (\<lambda>n. if HasPath (index_sns sns n) then []
                       else map (Pair n) (Visibilities (index_sns sns n))) l)"
proof (induction l)
  case Nil
  then show ?case by simp
next
  case (Cons n l)
  have "concat (map rule_pairs (map (probe_rule ing n si) vs)) = map (Pair n) vs" for si vs
    by (induction vs) simp_all
  with Cons show ?case by (simp add: Let_def)
qed

lemma sorted_services:
  "sorted l \<Longrightarrow>
   sorted (concat (map (\<lambda>n. if P n then [] else replicate (f n) n) l))"
proof (induction l)
  case Nil
  then show ?case by simp
next
  case (Cons n l)
  have sub: "set (concat (map (\<lambda>n. if P n then [] else replicate (f n) n) l)) \<subseteq> set l"
    by (auto split: if_splits)
  from Cons.prems have "\<forall>m \<in> set l. n \<le> m" and "sorted l" by simp_all
  with Cons.IH sub show ?case
    by (auto simp: sorted_append)
qed

lemma distinct_pairs:
  "distinct l \<Longrightarrow> (\<And>n. distinct (g n)) \<Longrightarrow>
   distinct (concat (map (\<lambda>n. if P n then [] else map (Pair n) (g n)) l))"
proof (induction l)
  case Nil
  then show ?case by simp
next
  case (Cons n l)
  have sub: "fst ` set (concat (map (\<lambda>n. if P n then [] else map (Pair n) (g n)) l)) \<subseteq> set l"
    by (auto split: if_splits)
  from Cons.prems have "n \<notin> set l" "distinct l" by simp_all
  with Cons.IH Cons.prems(2) sub show ?case
    by (auto simp: distinct_map inj_on_def)
qed

lemma set_pairs:
  "set (concat (map (\<lambda>n. if P n then [] else map (Pair n) (g n)) l)) =
     {(n, v). n \<in> set l \<and> \<not> P n \<and> v \<in> set (g n)}"
  by (induction l) auto

subsection \<open>The function as a whole\<close>

lemma merged_services_fold:
  "merged_services d ctx ing ps = fold observe (observations d ctx ps) (ServiceNames d ing)"
  by (simp add: merged_services_def merge_proxies_fold observations_def)

lemma MakeEndpointProbeIngress_Rules:
  "MakeEndpointProbeIngress d ctx ing ps = Some childIng \<Longrightarrow>
   Rules childIng =
     probe_rules ing (merged_services d ctx ing ps)
       (sorted_list_of_fset (fmdom (merged_services d ctx ing ps)))"
  by (auto simp: MakeEndpointProbeIngress_def Let_def)

lemma MakeEndpointProbeIngress_Some: "\<exists>childIng. MakeEndpointProbeIngress d ctx ing ps = Some childIng"
  by (simp add: MakeEndpointProbeIngress_def Let_def)

lemma proxy_visibility_cong:
  assumes "set (VisibilityClasses ctx1 i) = set (VisibilityClasses ctx2 i)"
    and "class_unshared (set (VisibilityClasses ctx1 i)) (index_string (proxy_Annotations proxy) (ClassKey d))"
  shows "proxy_visibility d ctx1 i proxy = proxy_visibility d ctx2 i proxy"
  unfolding proxy_visibility_def by (rule lookup_visibility_cong[OF assms])

lemma merge_proxies_cong:
  assumes "\<And>i. i < length ps \<Longrightarrow> CurrentStatus (ps ! i) = ''valid'' \<Longrightarrow>
             proxy_visibility d ctx1 (j + i) (ps ! i) = proxy_visibility d ctx2 (j + i) (ps ! i)"
  shows "merge_proxies d ctx1 j ps sns = merge_proxies d ctx2 j ps sns"
  using assms
proof (induction ps arbitrary: j sns)
  case Nil
  show ?case by simp
next
  case (Cons p ps)
  have head: "merge_proxy d ctx1 j p sns = merge_proxy d ctx2 j p sns"
  proof (cases "CurrentStatus p = ''valid''")
    case True
    with Cons.prems[of 0] have "proxy_visibility d ctx1 j p = proxy_visibility d ctx2 j p"
      by simp
    then show ?thesis by (simp only: merge_proxy_def)
  next
    case False
    then show ?thesis by (simp add: merge_proxy_def)
  qed
  have "merge_proxies d ctx1 (Suc j) ps sns' = merge_proxies d ctx2 (Suc j) ps sns'" for sns'
  proof (rule Cons.IH)
    fix i assume "i < length ps" and "CurrentStatus (ps ! i) = ''valid''"
    with Cons.prems[of "Suc i"]
    show "proxy_visibility d ctx1 (Suc j + i) (ps ! i) = proxy_visibility d ctx2 (Suc j + i) (ps ! i)"
      by simp
  qed
  with head show ?case by simp
qed

lemma merge_proxies_append:
  "merge_proxies d ctx i (xs @ ys) sns =
     merge_proxies d ctx (i + length xs) ys (merge_proxies d ctx i xs sns)"
  by (induction xs arbitrary: i sns) simp_all

lemma observations_from_append:
  "observations_from d ctx i (xs @ ys) =
     observations_from d ctx i xs @ observations_from d ctx (i + length xs) ys"
  by (induction xs arbitrary: i) simp_all

lemma proxy_visibility_no_class:
  assumes "\<forall>(v, class) \<in> set (VisibilityClasses ctx i). class \<noteq> index_string (proxy_Annotations proxy) (ClassKey d)"
  shows "proxy_visibility d ctx i proxy = []"
  unfolding proxy_visibility_def by (rule lookup_visibility_no_match[OF assms])

lemma merge_proxy_skip:
  assumes "CurrentStatus proxy \<noteq> ''valid'' \<or>
     (\<forall>(v, class) \<in> set (VisibilityClasses ctx i). class \<noteq> index_string (proxy_Annotations proxy) (ClassKey d))"
  shows "merge_proxy d ctx i proxy sns = sns"
  using assms proxy_visibility_no_class[of ctx i proxy d] by (auto simp: merge_proxy_def)

lemma proxy_visibility_without_round:
  "proxy_visibility d (without_round k ctx) i proxy =
     proxy_visibility d ctx (if i < k then i else Suc i) proxy"
  by (simp add: proxy_visibility_def without_round_def)

lemma merge_proxies_without_round_before:
  "i + length ps \<le> k \<Longrightarrow>
   merge_proxies d (without_round k ctx) i ps sns = merge_proxies d ctx i ps sns"
  by (induction ps arbitrary: i sns)
     (simp_all add: merge_proxy_def proxy_visibility_without_round)

lemma merge_proxies_without_round_after:
  "k \<le> i \<Longrightarrow>
   merge_proxies d (without_round k ctx) i ps sns = merge_proxies d ctx (Suc i) ps sns"
  by (induction ps arbitrary: i sns)
     (simp_all add: merge_proxy_def proxy_visibility_without_round)

lemma probed_pairs_set:
  "set (probed_pairs (MakeEndpointProbeIngress d ctx ing ps)) =
     {(n, v). \<exists>si. fmlookup (merged_services d ctx ing ps) n = Some si \<and> \<not> HasPath si \<and>
                    v |\<in>| RawVisibilities si}"
proof -
  let ?sns = "merged_services d ctx ing ps"
  have "set (probed_pairs (MakeEndpointProbeIngress d ctx ing ps)) =
          {(n, v). n |\<in>| fmdom ?sns \<and> \<not> HasPath (index_sns ?sns n) \<and>
                   v |\<in>| RawVisibilities (index_sns ?sns n)}"
    by (simp add: probed_pairs_def MakeEndpointProbeIngress_def Let_def probe_rules_pairs) auto
  also have "\<dots> = {(n, v). \<exists>si. fmlookup ?sns n = Some si \<and> \<not> HasPath si \<and> v |\<in>| RawVisibilities si}"
    by (auto simp: index_sns_Some dest: index_sns_dom intro: fmdomI)
  finally show ?thesis .
qed

lemma probed_services_sorted:
  "sorted (probed_services (MakeEndpointProbeIngress d ctx ing ps))"
  by (simp add: probed_services_def MakeEndpointProbeIngress_def Let_def probe_rules_services
        sorted_services sorted_list_of_fset.rep_eq)

lemma probed_pairs_distinct:
  "distinct (probed_pairs (MakeEndpointProbeIngress d ctx ing ps))"
  by (simp add: probed_pairs_def MakeEndpointProbeIngress_def Let_def probe_rules_pairs
        distinct_pairs sorted_list_of_fset.rep_eq)

lemma in_Rules:
  assumes "MakeEndpointProbeIngress d ctx ing ps = Some childIng" and "r \<in> set (Rules childIng)"
  shows "\<exists>n si v. fmlookup (merged_services d ctx ing ps) n = Some si \<and> \<not> HasPath si \<and>
           v |\<in>| RawVisibilities si \<and> r = probe_rule ing n si v"
proof -
  let ?sns = "merged_services d ctx ing ps"
  from assms have "r \<in> set (probe_rules ing ?sns (sorted_list_of_fset (fmdom ?sns)))"
    by (simp add: MakeEndpointProbeIngress_Rules)
  then obtain n v where n: "n |\<in>| fmdom ?sns" and p: "\<not> HasPath (index_sns ?sns n)"
    and v: "v |\<in>| RawVisibilities (index_sns ?sns n)" and r: "r = probe_rule ing n (index_sns ?sns n) v"
    by (auto simp: in_probe_rules)
  from index_sns_dom[OF n] p v r show ?thesis by blast
qed

lemma probe_host_eq_iff:
  "probe_host n g i ns = probe_host n' g' i ns \<longleftrightarrow> n = n' \<and> g = g'"
  using probe_host_inj[of n g i ns n' g'] by auto

lemma probed_services_set:
  "set (probed_services (MakeEndpointProbeIngress d ctx ing ps)) =
     fst ` set (probed_pairs (MakeEndpointProbeIngress d ctx ing ps))"
proof -
  have "map fst (concat (map rule_pairs rs)) = concat (map rule_services rs)" for rs
    by (induction rs) (simp_all add: rule_pairs_def comp_def)
  then have "probed_services res = map fst (probed_pairs res)" for res
    by (simp add: probed_services_def probed_pairs_def split: option.splits)
  then show ?thesis by simp
qed

lemma observed_visibilities_member:
  "ob \<in> set obs \<Longrightarrow> obs_Visibility ob |\<in>| observed_visibilities obs (obs_Name ob)"
  by (induction obs) auto

lemma fold_observe_member:
  assumes "ob \<in> set obs"
  shows "\<exists>si. fmlookup (fold observe obs sns) (obs_Name ob) = Some si \<and>
              obs_Visibility ob |\<in>| RawVisibilities si"
proof (cases "fmlookup sns (obs_Name ob)")
  case None
  from assms obtain ob' where f: "find (\<lambda>x. obs_Name x = obs_Name ob) obs = Some ob'"
    by (cases "find (\<lambda>x. obs_Name x = obs_Name ob) obs") (auto simp: find_None_iff)
  show ?thesis
    using fold_observe_None[OF None, of obs] f observed_visibilities_member[OF assms]
    by simp
next
  case (Some si)
  show ?thesis
    using fold_observe_Some[OF Some, of obs] observed_visibilities_member[OF assms]
    by simp
qed

lemma proxy_observations_in:
  "i < length ps \<Longrightarrow>
   set (proxy_observations d ctx (j + i) (ps ! i)) \<subseteq> set (observations_from d ctx j ps)"
proof (induction ps arbitrary: i j)
  case Nil
  then show ?case by simp
next
  case (Cons p ps)
  show ?case
  proof (cases i)
    case 0
    then show ?thesis by simp
  next
    case (Suc k)
    with Cons.prems have "k < length ps" by simp
    from Cons.IH[OF this, of "Suc j"] Suc show ?thesis by auto
  qed
qed

lemma in_proxy_observations:
  assumes "CurrentStatus q = ''valid''" and "proxy_visibility d ctx i q \<noteq> []"
    and "n \<in> set (proxy_backends q)"
  shows "\<exists>ob \<in> set (proxy_observations d ctx i q).
           obs_Name ob = n \<and> obs_Visibility ob = proxy_visibility d ctx i q"
  using assms
  by (auto simp: proxy_observations_def proxy_backends_def route_observations_def)

lemma proxy_observations_names:
  "obs_Name ` set (proxy_observations d ctx i q) \<subseteq> set (proxy_backends q)"
  by (auto simp: proxy_observations_def proxy_backends_def route_observations_def)

lemma observations_from_names:
  "obs_Name ` set (observations_from d ctx j ps) \<subseteq> set (concat (map proxy_backends ps))"
proof (induction ps arbitrary: j)
  case Nil
  show ?case by simp
next
  case (Cons p ps)
  from Cons.IH[of "Suc j"] proxy_observations_names[of d ctx j p]
  show ?case by auto
qed

lemma probed_services_in_map:
  "n \<in> set (probed_services (MakeEndpointProbeIngress d ctx ing ps)) \<Longrightarrow>
   n |\<in>| fmdom (merged_services d ctx ing ps)"
  by (auto simp: probed_services_set probed_pairs_set intro: fmdomI)

lemma merged_services_dom:
  "fmdom (merged_services d ctx ing ps) =
     fmdom (ServiceNames d ing) |\<union>| fset_of_list (map obs_Name (observations d ctx ps))"
  by (simp add: merged_services_fold fold_observe_dom)

lemma probe_host_inj_no_dot:
  assumes eq: "probe_host n g i ns = probe_host n' g' i' ns'"
    and n: "CHR ''.'' \<notin> set n" and n': "CHR ''.'' \<notin> set n'"
    and ns: "CHR ''.'' \<notin> set ns" and ns': "CHR ''.'' \<notin> set ns'"
  shows "n = n' \<and> g = g' \<and> i = i' \<and> ns = ns'"
proof -
  from eq have 1: "n @ CHR ''.'' # (''gen-'' @ format_d g @ CHR ''.'' # (i @ CHR ''.'' # ns)) =
                   n' @ CHR ''.'' # (''gen-'' @ format_d g' @ CHR ''.'' # (i' @ CHR ''.'' # ns'))"
    by (simp add: probe_host_def)
  from first_split[OF n n' 1] have nn: "n = n'"
    and 2: "(''gen-'' @ format_d g) @ CHR ''.'' # (i @ CHR ''.'' # ns) =
            (''gen-'' @ format_d g') @ CHR ''.'' # (i' @ CHR ''.'' # ns')"
    by simp_all
  have d: "CHR ''.'' \<notin> set (''gen-'' @ format_d g)" and d': "CHR ''.'' \<notin> set (''gen-'' @ format_d g')"
    using format_d_no_dot[of g] format_d_no_dot[of g'] by simp_all
  from first_split[OF d d' 2] have f: "format_d g = format_d g'"
    and 3: "i @ CHR ''.'' # ns = i' @ CHR ''.'' # ns'"
    by simp_all
  from f have gg: "g = g'" by (rule format_d_inj)
  from gen_split[OF 3 ns ns'] have "i = i'" and "ns = ns'" by simp_all
  with nn gg show ?thesis by blast
qed

text \<open>Without the condition on dots, two ingresses can have one host for a service.\<close>

lemma probe_host_dot_ambiguous:
  "probe_host ''a'' 1 ''b.c'' ''d'' = probe_host ''a'' 1 ''b'' ''c.d''"
  by code_simp

section \<open>The claims of the specification\<close>

text \<open>
  C1, as amended. When the service map that results from the ingress and the previous state
  is empty, the function does not return \<^verbatim>\<open>nil\<close>: it returns the child ingress, and the
  child ingress carries no rule.
\<close>

theorem empty_service_map_gives_probe_without_rules:
  assumes "merged_services d ctx ing previousState = fmempty"
  shows "\<exists>childIng. MakeEndpointProbeIngress d ctx ing previousState = Some childIng \<and> Rules childIng = []"
  using assms by (simp add: MakeEndpointProbeIngress_def Let_def sorted_list_of_fset.rep_eq)

text \<open>An instance: the only previous proxy is not valid, so the map stays empty.\<close>

theorem empty_service_map_gives_probe_without_rules_witness:
  "merged_services ex_decls ex_ctx ex_ing [ex_proxy_invalid] = fmempty \<and>
   (\<exists>childIng. MakeEndpointProbeIngress ex_decls ex_ctx ex_ing [ex_proxy_invalid] = Some childIng \<and> Rules childIng = [])"
proof -
  have h: "merged_services ex_decls ex_ctx ex_ing [ex_proxy_invalid] = fmempty"
    by code_simp
  from empty_service_map_gives_probe_without_rules[OF h] h show ?thesis by simp
qed

text \<open>
  The claim as the spec words it, that nothing is returned for an empty map, fails for an
  ingress without services and no previous state: a child ingress is returned.
\<close>

theorem empty_service_map_not_nil_counterexample:
  "merged_services ex_decls ex_ctx ex_ing [] = fmempty \<and>
   MakeEndpointProbeIngress ex_decls ex_ctx ex_ing [] \<noteq> None"
  by code_simp

text \<open>
  C2, as amended. For a fixed ingress, previous state and map of visibility classes, two
  runs of the function return the same child ingress, whatever order each range over the
  map takes in either run, provided that the class annotation of every valid proxy of the
  previous state is the class name of at most one visibility class.
\<close>

theorem deterministic_when_proxy_classes_unshared:
  assumes "\<forall>i. set (VisibilityClasses ctx1 i) = classes"
    and "\<forall>i. set (VisibilityClasses ctx2 i) = classes"
    and "\<forall>i < length previousState.
           CurrentStatus (previousState ! i) = ''valid'' \<longrightarrow>
           class_unshared classes (index_string (proxy_Annotations (previousState ! i)) (ClassKey d))"
  shows "MakeEndpointProbeIngress d ctx1 ing previousState = MakeEndpointProbeIngress d ctx2 ing previousState"
proof -
  have "merge_proxies d ctx1 0 previousState (ServiceNames d ing) =
        merge_proxies d ctx2 0 previousState (ServiceNames d ing)"
  proof (rule merge_proxies_cong)
    fix i assume i: "i < length previousState" and v: "CurrentStatus (previousState ! i) = ''valid''"
    have s: "set (VisibilityClasses ctx1 (0 + i)) = set (VisibilityClasses ctx2 (0 + i))"
      using assms(1,2) by simp
    have u: "class_unshared (set (VisibilityClasses ctx1 (0 + i)))
               (index_string (proxy_Annotations (previousState ! i)) (ClassKey d))"
      using assms(1,3) i v by simp
    show "proxy_visibility d ctx1 (0 + i) (previousState ! i) =
          proxy_visibility d ctx2 (0 + i) (previousState ! i)"
      by (rule proxy_visibility_cong[OF s u])
  qed
  then show ?thesis by (simp add: MakeEndpointProbeIngress_def merged_services_def)
qed

text \<open>An instance: the two classes of the default configuration, with different orders of visit.\<close>

theorem deterministic_when_proxy_classes_unshared_witness:
  "set (VisibilityClasses ex_ctx 0) =
     {(''ExternalIP'', ''contour-external''), (''ClusterLocal'', ''contour-internal'')} \<and>
   set (VisibilityClasses ex_ctx_rev 1) =
     {(''ExternalIP'', ''contour-external''), (''ClusterLocal'', ''contour-internal'')} \<and>
   class_unshared {(''ExternalIP'', ''contour-external''), (''ClusterLocal'', ''contour-internal'')}
     (index_string (proxy_Annotations ex_proxy_external_ba) (ClassKey ex_decls)) \<and>
   probed_pairs (MakeEndpointProbeIngress ex_decls ex_ctx ex_ing [ex_proxy_external_ba, ex_proxy_internal_a]) =
     [(''svc-a'', ''ClusterLocal''), (''svc-a'', ''ExternalIP''), (''svc-b'', ''ExternalIP'')] \<and>
   MakeEndpointProbeIngress ex_decls ex_ctx ex_ing [ex_proxy_external_ba, ex_proxy_internal_a] =
   MakeEndpointProbeIngress ex_decls ex_ctx_rev ex_ing [ex_proxy_external_ba, ex_proxy_internal_a]"
proof -
  let ?classes = "{(''ExternalIP'', ''contour-external''), (''ClusterLocal'', ''contour-internal'')}"
  have a: "\<forall>i. set (VisibilityClasses ex_ctx i) = ?classes"
    by (simp add: ex_ctx_def insert_commute)
  have b: "\<forall>i. set (VisibilityClasses ex_ctx_rev i) = ?classes"
    by (simp add: ex_ctx_rev_def insert_commute)
  have u0: "class_unshared ?classes (index_string (proxy_Annotations ex_proxy_external_ba) (ClassKey ex_decls))"
    by code_simp
  have u1: "class_unshared ?classes (index_string (proxy_Annotations ex_proxy_internal_a) (ClassKey ex_decls))"
    by code_simp
  have c: "\<forall>i < length [ex_proxy_external_ba, ex_proxy_internal_a].
           CurrentStatus ([ex_proxy_external_ba, ex_proxy_internal_a] ! i) = ''valid'' \<longrightarrow>
           class_unshared ?classes
             (index_string (proxy_Annotations ([ex_proxy_external_ba, ex_proxy_internal_a] ! i)) (ClassKey ex_decls))"
  proof (intro allI impI)
    fix i :: nat
    assume "i < length [ex_proxy_external_ba, ex_proxy_internal_a]"
    then consider "i = 0" | "i = 1" by fastforce
    then show "class_unshared ?classes
             (index_string (proxy_Annotations ([ex_proxy_external_ba, ex_proxy_internal_a] ! i)) (ClassKey ex_decls))"
      by cases (simp_all add: u0 u1)
  qed
  have p: "probed_pairs (MakeEndpointProbeIngress ex_decls ex_ctx ex_ing [ex_proxy_external_ba, ex_proxy_internal_a]) =
     [(''svc-a'', ''ClusterLocal''), (''svc-a'', ''ExternalIP''), (''svc-b'', ''ExternalIP'')]"
    by code_simp
  have a0: "set (VisibilityClasses ex_ctx 0) = ?classes" using a by blast
  have b1: "set (VisibilityClasses ex_ctx_rev 1) = ?classes" using b by blast
  note t = deterministic_when_proxy_classes_unshared[OF a b c, of ex_ing]
  show ?thesis
    by (intro conjI) (rule a0, rule b1, rule u0, rule p, rule t)
qed

text \<open>
  When both visibilities are mapped to the class name that the proxies carry, the last
  entry visited wins in every round, and two runs on the same map that differ in the order
  of visit of one round return different child ingresses.
\<close>

theorem shared_class_order_dependent_counterexample:
  "set (VisibilityClasses ex_ctx_shared 0) = {(''ExternalIP'', ''contour''), (''ClusterLocal'', ''contour'')} \<and>
   set (VisibilityClasses ex_ctx_shared 1) = {(''ExternalIP'', ''contour''), (''ClusterLocal'', ''contour'')} \<and>
   set (VisibilityClasses ex_ctx_shared_mixed 0) = {(''ExternalIP'', ''contour''), (''ClusterLocal'', ''contour'')} \<and>
   set (VisibilityClasses ex_ctx_shared_mixed 1) = {(''ExternalIP'', ''contour''), (''ClusterLocal'', ''contour'')} \<and>
   probed_pairs (MakeEndpointProbeIngress ex_decls ex_ctx_shared ex_ing [ex_proxy_shared, ex_proxy_shared_b]) =
     [(''svc-a'', ''ClusterLocal''), (''svc-b'', ''ClusterLocal'')] \<and>
   probed_pairs (MakeEndpointProbeIngress ex_decls ex_ctx_shared_mixed ex_ing [ex_proxy_shared, ex_proxy_shared_b]) =
     [(''svc-a'', ''ExternalIP''), (''svc-b'', ''ClusterLocal'')] \<and>
   MakeEndpointProbeIngress ex_decls ex_ctx_shared ex_ing [ex_proxy_shared, ex_proxy_shared_b] \<noteq>
   MakeEndpointProbeIngress ex_decls ex_ctx_shared_mixed ex_ing [ex_proxy_shared, ex_proxy_shared_b]"
  by code_simp

text \<open>
  C3, as amended. A service whose entry in the merged service map is flagged \<^verbatim>\<open>HasPath\<close>
  is referenced by no rule of the child ingress. The flag of an entry is set when the
  entry is created and not changed afterwards: an entry that \<^verbatim>\<open>ServiceNames\<close> returned for
  the ingress keeps its flag whatever the previous state holds, and an entry created from
  the previous state has the flag of the first route, of a proxy that is not passed over,
  that routes to the service.
\<close>

theorem flagged_service_excluded:
  "(\<forall>n. HasPath (index_sns (merged_services d ctx ing previousState) n) \<longrightarrow>
        n \<notin> set (probed_services (MakeEndpointProbeIngress d ctx ing previousState))) \<and>
   (\<forall>n si. fmlookup (ServiceNames d ing) n = Some si \<longrightarrow>
        HasPath (index_sns (merged_services d ctx ing previousState) n) = HasPath si) \<and>
   (\<forall>n ob. fmlookup (ServiceNames d ing) n = None \<and>
        first_observation (observations d ctx previousState) n = Some ob \<longrightarrow>
        HasPath (index_sns (merged_services d ctx ing previousState) n) = obs_HasPath ob)"
proof -
  let ?sns = "merged_services d ctx ing previousState"
  have a: "n \<notin> set (probed_services (MakeEndpointProbeIngress d ctx ing previousState))"
    if "HasPath (index_sns ?sns n)" for n
    using that by (auto simp: probed_services_set probed_pairs_set index_sns_Some)
  have b: "HasPath (index_sns ?sns n) = HasPath si" if "fmlookup (ServiceNames d ing) n = Some si" for n si
    using fold_observe_Some[OF that, of "observations d ctx previousState"]
    by (simp add: merged_services_fold index_sns_def)
  have c: "HasPath (index_sns ?sns n) = obs_HasPath ob"
    if "fmlookup (ServiceNames d ing) n = None" and "first_observation (observations d ctx previousState) n = Some ob"
    for n ob
    using fold_observe_None[OF that(1), of "observations d ctx previousState"] that(2)
    by (simp add: merged_services_fold index_sns_def first_observation_def)
  from a b c show ?thesis by blast
qed

text \<open>An instance: \<^verbatim>\<open>svc-c\<close> is first seen on a route with a prefix, \<^verbatim>\<open>svc-a\<close> comes from the ingress.\<close>

theorem flagged_service_excluded_witness:
  "HasPath (index_sns (merged_services ex_decls_a ex_ctx ex_ing_a [ex_proxy_path_c, ex_proxy_path_a]) ''svc-c'') \<and>
   ''svc-c'' \<notin> set (probed_services (MakeEndpointProbeIngress ex_decls_a ex_ctx ex_ing_a [ex_proxy_path_c, ex_proxy_path_a])) \<and>
   fmlookup (ServiceNames ex_decls_a ex_ing_a) ''svc-a'' = Some ex_info_a \<and>
   HasPath (index_sns (merged_services ex_decls_a ex_ctx ex_ing_a [ex_proxy_path_c, ex_proxy_path_a]) ''svc-a'') =
     HasPath ex_info_a \<and>
   fmlookup (ServiceNames ex_decls_a ex_ing_a) ''svc-c'' = None \<and>
   first_observation (observations ex_decls_a ex_ctx [ex_proxy_path_c, ex_proxy_path_a]) ''svc-c'' =
     Some \<lparr>obs_Name = ''svc-c'', obs_Visibility = ''ExternalIP'', obs_HasPath = True, obs_Port = 80\<rparr>"
proof -
  have h: "HasPath (index_sns (merged_services ex_decls_a ex_ctx ex_ing_a [ex_proxy_path_c, ex_proxy_path_a]) ''svc-c'')"
    by code_simp
  have i: "fmlookup (ServiceNames ex_decls_a ex_ing_a) ''svc-a'' = Some ex_info_a"
    by (simp add: ex_decls_a_def)
  have j: "fmlookup (ServiceNames ex_decls_a ex_ing_a) ''svc-c'' = None"
    by (simp add: ex_decls_a_def)
  have k: "first_observation (observations ex_decls_a ex_ctx [ex_proxy_path_c, ex_proxy_path_a]) ''svc-c'' =
     Some \<lparr>obs_Name = ''svc-c'', obs_Visibility = ''ExternalIP'', obs_HasPath = True, obs_Port = 80\<rparr>"
    by code_simp
  from flagged_service_excluded[of ex_decls_a ex_ctx ex_ing_a "[ex_proxy_path_c, ex_proxy_path_a]"] h i j k
  show ?thesis by blast
qed

text \<open>
  The claim as the spec words it fails: a service that the previous state routes to first
  without a prefix and then under a prefix has path-based rules there, and is probed.
\<close>

theorem path_rules_after_root_rule_counterexample:
  "has_path_rules [ex_proxy_root_then_path] ''svc-a'' \<and>
   ''svc-a'' \<in> set (probed_services (MakeEndpointProbeIngress ex_decls ex_ctx ex_ing [ex_proxy_root_then_path]))"
  by code_simp

text \<open>
  C4, as amended. For every service, the visibilities observed on the proxies of the
  previous state that are not passed over are added to the visibilities of its entry,
  whether the entry comes from the ingress or not. The other fields are not merged: an
  entry that comes from the ingress keeps its port, its \<^verbatim>\<open>HasPath\<close> flag and its rewrite
  host, and an entry created from the previous state takes port and flag from the first
  observation of the service.
\<close>

theorem visibilities_unioned_flag_kept:
  "(\<forall>n si. fmlookup (ServiceNames d ing) n = Some si \<longrightarrow>
      fmlookup (merged_services d ctx ing previousState) n =
        Some (si\<lparr>RawVisibilities :=
                   RawVisibilities si |\<union>| observed_visibilities (observations d ctx previousState) n\<rparr>)) \<and>
   (\<forall>n. fmlookup (ServiceNames d ing) n = None \<longrightarrow>
      fmlookup (merged_services d ctx ing previousState) n =
        (case first_observation (observations d ctx previousState) n of
           None \<Rightarrow> None
         | Some ob \<Rightarrow>
             Some \<lparr>Port = FromInt (obs_Port ob),
                   RawVisibilities = observed_visibilities (observations d ctx previousState) n,
                   HasPath = obs_HasPath ob,
                   RewriteHost = []\<rparr>))"
  by (simp add: merged_services_fold fold_observe_Some fold_observe_None first_observation_def)

text \<open>An instance, with one service of the ingress and one service of the previous state only.\<close>

theorem visibilities_unioned_flag_kept_witness:
  "fmlookup (ServiceNames ex_decls_a ex_ing_a) ''svc-a'' = Some ex_info_a \<and>
   observed_visibilities (observations ex_decls_a ex_ctx [ex_proxy_path_a, ex_proxy_path_c]) ''svc-a'' = {|''ClusterLocal''|} \<and>
   fmlookup (merged_services ex_decls_a ex_ctx ex_ing_a [ex_proxy_path_a, ex_proxy_path_c]) ''svc-a'' =
     Some (ex_info_a\<lparr>RawVisibilities :=
             RawVisibilities ex_info_a |\<union>|
               observed_visibilities (observations ex_decls_a ex_ctx [ex_proxy_path_a, ex_proxy_path_c]) ''svc-a''\<rparr>) \<and>
   fmlookup (ServiceNames ex_decls_a ex_ing_a) ''svc-c'' = None \<and>
   fmlookup (merged_services ex_decls_a ex_ctx ex_ing_a [ex_proxy_path_a, ex_proxy_path_c]) ''svc-c'' =
     (case first_observation (observations ex_decls_a ex_ctx [ex_proxy_path_a, ex_proxy_path_c]) ''svc-c'' of
        None \<Rightarrow> None
      | Some ob \<Rightarrow>
          Some \<lparr>Port = FromInt (obs_Port ob),
                RawVisibilities = observed_visibilities (observations ex_decls_a ex_ctx [ex_proxy_path_a, ex_proxy_path_c]) ''svc-c'',
                HasPath = obs_HasPath ob,
                RewriteHost = []\<rparr>)"
proof -
  have i: "fmlookup (ServiceNames ex_decls_a ex_ing_a) ''svc-a'' = Some ex_info_a"
    by (simp add: ex_decls_a_def)
  have j: "fmlookup (ServiceNames ex_decls_a ex_ing_a) ''svc-c'' = None"
    by (simp add: ex_decls_a_def)
  have k: "observed_visibilities (observations ex_decls_a ex_ctx [ex_proxy_path_a, ex_proxy_path_c]) ''svc-a'' = {|''ClusterLocal''|}"
    by code_simp
  from visibilities_unioned_flag_kept[of ex_decls_a ex_ing_a ex_ctx "[ex_proxy_path_a, ex_proxy_path_c]"] i j k
  show ?thesis by blast
qed

text \<open>
  The path flag is not unioned: the service of the ingress is observed on a route with a
  prefix, its visibilities grow and its flag stays off.
\<close>

theorem path_flag_not_unioned_counterexample:
  "fmlookup (ServiceNames ex_decls_a ex_ing_a) ''svc-a'' =
     Some \<lparr>Port = IntVal 80, RawVisibilities = {|''ExternalIP''|}, HasPath = False, RewriteHost = []\<rparr> \<and>
   observations ex_decls_a ex_ctx [ex_proxy_path_a] =
     [\<lparr>obs_Name = ''svc-a'', obs_Visibility = ''ClusterLocal'', obs_HasPath = True, obs_Port = 80\<rparr>] \<and>
   fmlookup (merged_services ex_decls_a ex_ctx ex_ing_a [ex_proxy_path_a]) ''svc-a'' =
     Some \<lparr>Port = IntVal 80, RawVisibilities = {|''ClusterLocal'', ''ExternalIP''|}, HasPath = False, RewriteHost = []\<rparr>"
  by code_simp

text \<open>
  C5. The rules of the child ingress come in ascending order of service name; every rule
  stands for one pair of a service and a visibility; no pair has two rules; and the pairs
  are those of the merged service map, without the services flagged \<^verbatim>\<open>HasPath\<close>.
\<close>

theorem rules_sorted_one_per_pair:
  assumes "MakeEndpointProbeIngress d ctx ing previousState = Some childIng"
  shows "sorted (concat (map rule_services (Rules childIng))) \<and>
         (\<forall>r \<in> set (Rules childIng). length (rule_pairs r) = 1) \<and>
         distinct (concat (map rule_pairs (Rules childIng))) \<and>
         set (concat (map rule_pairs (Rules childIng))) =
           {(n, v). \<exists>si. fmlookup (merged_services d ctx ing previousState) n = Some si \<and>
                          \<not> HasPath si \<and> v |\<in>| RawVisibilities si}"
proof -
  have a: "sorted (concat (map rule_services (Rules childIng)))"
    using probed_services_sorted[of d ctx ing previousState] assms by (simp add: probed_services_def)
  have b: "length (rule_pairs r) = 1" if "r \<in> set (Rules childIng)" for r
    using in_Rules[OF assms that] by auto
  have c: "distinct (concat (map rule_pairs (Rules childIng)))"
    using probed_pairs_distinct[of d ctx ing previousState] assms by (simp add: probed_pairs_def)
  have e: "set (concat (map rule_pairs (Rules childIng))) =
           {(n, v). \<exists>si. fmlookup (merged_services d ctx ing previousState) n = Some si \<and>
                          \<not> HasPath si \<and> v |\<in>| RawVisibilities si}"
    using probed_pairs_set[of d ctx ing previousState] assms by (simp add: probed_pairs_def)
  from a b c e show ?thesis by blast
qed

text \<open>An instance with three services, one of them flagged.\<close>

theorem rules_sorted_one_per_pair_witness:
  "MakeEndpointProbeIngress ex_decls_a ex_ctx ex_ing_a [ex_proxy_external_ba, ex_proxy_path_c, ex_proxy_internal_a] \<noteq> None \<and>
   probed_pairs (MakeEndpointProbeIngress ex_decls_a ex_ctx ex_ing_a [ex_proxy_external_ba, ex_proxy_path_c, ex_proxy_internal_a]) =
     [(''svc-a'', ''ClusterLocal''), (''svc-a'', ''ExternalIP''), (''svc-b'', ''ExternalIP'')] \<and>
   sorted (probed_services (MakeEndpointProbeIngress ex_decls_a ex_ctx ex_ing_a [ex_proxy_external_ba, ex_proxy_path_c, ex_proxy_internal_a])) \<and>
   distinct (probed_pairs (MakeEndpointProbeIngress ex_decls_a ex_ctx ex_ing_a [ex_proxy_external_ba, ex_proxy_path_c, ex_proxy_internal_a])) \<and>
   set (probed_pairs (MakeEndpointProbeIngress ex_decls_a ex_ctx ex_ing_a [ex_proxy_external_ba, ex_proxy_path_c, ex_proxy_internal_a])) =
     {(n, v). \<exists>si. fmlookup (merged_services ex_decls_a ex_ctx ex_ing_a
                                [ex_proxy_external_ba, ex_proxy_path_c, ex_proxy_internal_a]) n = Some si \<and>
                    \<not> HasPath si \<and> v |\<in>| RawVisibilities si}"
proof -
  obtain childIng where h:
    "MakeEndpointProbeIngress ex_decls_a ex_ctx ex_ing_a [ex_proxy_external_ba, ex_proxy_path_c, ex_proxy_internal_a] =
       Some childIng"
    using MakeEndpointProbeIngress_Some by blast
  have p: "probed_pairs (MakeEndpointProbeIngress ex_decls_a ex_ctx ex_ing_a [ex_proxy_external_ba, ex_proxy_path_c, ex_proxy_internal_a]) =
     [(''svc-a'', ''ClusterLocal''), (''svc-a'', ''ExternalIP''), (''svc-b'', ''ExternalIP'')]"
    by code_simp
  have nn: "MakeEndpointProbeIngress ex_decls_a ex_ctx ex_ing_a [ex_proxy_external_ba, ex_proxy_path_c, ex_proxy_internal_a] \<noteq> None"
    using h by simp
  have ps: "probed_services (MakeEndpointProbeIngress ex_decls_a ex_ctx ex_ing_a [ex_proxy_external_ba, ex_proxy_path_c, ex_proxy_internal_a]) =
      concat (map rule_services (Rules childIng))"
    by (simp add: h probed_services_def)
  have pp: "probed_pairs (MakeEndpointProbeIngress ex_decls_a ex_ctx ex_ing_a [ex_proxy_external_ba, ex_proxy_path_c, ex_proxy_internal_a]) =
      concat (map rule_pairs (Rules childIng))"
    by (simp add: h probed_pairs_def)
  from rules_sorted_one_per_pair[OF h] nn p show ?thesis
    unfolding ps pp by blast
qed

text \<open>
  C6, as amended. Every rule of the child ingress has one host, made of the name of its
  service, the generation in decimal after \<^verbatim>\<open>gen-\<close>, the name and the namespace of the
  parent ingress and the ending \<^verbatim>\<open>net-contour.invalid\<close>, joined by dots. Two rules of one
  child ingress have the same host exactly when they are for the same service: the
  visibility is not part of the host, and the rules of one service on several visibilities
  share it. For one ingress name and namespace, the host determines the service and the
  generation; and when neither the names of the services nor the namespaces contain a dot,
  the host determines the service, the generation, the ingress name and the namespace.
\<close>

theorem host_per_service:
  assumes "MakeEndpointProbeIngress d ctx ing previousState = Some childIng"
  shows "(\<forall>r \<in> set (Rules childIng).
            \<exists>name. rule_services r = [name] \<and>
                   Hosts r = [name @ ''.gen-'' @ format_d (Generation ing) @ ''.'' @ Name ing @ ''.'' @
                              Namespace ing @ ''.net-contour.invalid'']) \<and>
         (\<forall>r \<in> set (Rules childIng). \<forall>r' \<in> set (Rules childIng).
            (Hosts r = Hosts r') = (rule_services r = rule_services r')) \<and>
         (\<forall>name name' gen gen'.
            probe_host name gen (Name ing) (Namespace ing) = probe_host name' gen' (Name ing) (Namespace ing) \<longrightarrow>
            name = name' \<and> gen = gen') \<and>
         (\<forall>name name' gen gen' ingName ingName' ns ns'.
            CHR ''.'' \<notin> set name \<and> CHR ''.'' \<notin> set name' \<and> CHR ''.'' \<notin> set ns \<and> CHR ''.'' \<notin> set ns' \<and>
            probe_host name gen ingName ns = probe_host name' gen' ingName' ns' \<longrightarrow>
            name = name' \<and> gen = gen' \<and> ingName = ingName' \<and> ns = ns')"
proof -
  have a0: "\<exists>name. rule_services r = [name] \<and>
                  Hosts r = [probe_host name (Generation ing) (Name ing) (Namespace ing)]"
    if "r \<in> set (Rules childIng)" for r
    using in_Rules[OF assms that] by auto
  then have a: "\<exists>name. rule_services r = [name] \<and>
                   Hosts r = [name @ ''.gen-'' @ format_d (Generation ing) @ ''.'' @ Name ing @ ''.'' @
                              Namespace ing @ ''.net-contour.invalid'']"
    if "r \<in> set (Rules childIng)" for r
    using that unfolding probe_host_def by blast
  have b: "(Hosts r = Hosts r') = (rule_services r = rule_services r')"
    if "r \<in> set (Rules childIng)" and "r' \<in> set (Rules childIng)" for r r'
    using a0[OF that(1)] a0[OF that(2)] by (auto simp: probe_host_eq_iff)
  have c: "name = name' \<and> gen = gen' \<and> ingName = ingName' \<and> ns = ns'"
    if "CHR ''.'' \<notin> set name \<and> CHR ''.'' \<notin> set name' \<and> CHR ''.'' \<notin> set ns \<and> CHR ''.'' \<notin> set ns' \<and>
        probe_host name gen ingName ns = probe_host name' gen' ingName' ns'"
    for name name' gen gen' ingName ingName' ns ns'
  proof -
    from that have e: "probe_host name gen ingName ns = probe_host name' gen' ingName' ns'"
      and d: "CHR ''.'' \<notin> set name" "CHR ''.'' \<notin> set name'" "CHR ''.'' \<notin> set ns" "CHR ''.'' \<notin> set ns'"
      by blast+
    show ?thesis by (rule probe_host_inj_no_dot[OF e d])
  qed
  show ?thesis
  proof (intro conjI)
    show "\<forall>r \<in> set (Rules childIng).
            \<exists>name. rule_services r = [name] \<and>
                   Hosts r = [name @ ''.gen-'' @ format_d (Generation ing) @ ''.'' @ Name ing @ ''.'' @
                              Namespace ing @ ''.net-contour.invalid'']"
      using a by blast
    show "\<forall>r \<in> set (Rules childIng). \<forall>r' \<in> set (Rules childIng).
            (Hosts r = Hosts r') = (rule_services r = rule_services r')"
      using b by blast
    show "\<forall>name name' gen gen'.
            probe_host name gen (Name ing) (Namespace ing) = probe_host name' gen' (Name ing) (Namespace ing) \<longrightarrow>
            name = name' \<and> gen = gen'"
      by (intro allI impI) (rule probe_host_inj)
    show "\<forall>name name' gen gen' ingName ingName' ns ns'.
            CHR ''.'' \<notin> set name \<and> CHR ''.'' \<notin> set name' \<and> CHR ''.'' \<notin> set ns \<and> CHR ''.'' \<notin> set ns' \<and>
            probe_host name gen ingName ns = probe_host name' gen' ingName' ns' \<longrightarrow>
            name = name' \<and> gen = gen' \<and> ingName = ingName' \<and> ns = ns'"
      by (intro allI impI) (rule c)
  qed
qed

text \<open>An instance, with the hosts written out.\<close>

theorem host_per_service_witness:
  "MakeEndpointProbeIngress ex_decls ex_ctx ex_ing [ex_proxy_external_ba, ex_proxy_internal_a] \<noteq> None \<and>
   map rule_services (Rules (the (MakeEndpointProbeIngress ex_decls ex_ctx ex_ing [ex_proxy_external_ba, ex_proxy_internal_a]))) =
     [[''svc-a''], [''svc-a''], [''svc-b'']] \<and>
   map Hosts (Rules (the (MakeEndpointProbeIngress ex_decls ex_ctx ex_ing [ex_proxy_external_ba, ex_proxy_internal_a]))) =
     [[''svc-a.gen-7.foo.ns.net-contour.invalid''],
      [''svc-a.gen-7.foo.ns.net-contour.invalid''],
      [''svc-b.gen-7.foo.ns.net-contour.invalid'']] \<and>
   (\<exists>name. rule_services (hd (Rules (the (MakeEndpointProbeIngress ex_decls ex_ctx ex_ing [ex_proxy_external_ba, ex_proxy_internal_a])))) = [name] \<and>
           Hosts (hd (Rules (the (MakeEndpointProbeIngress ex_decls ex_ctx ex_ing [ex_proxy_external_ba, ex_proxy_internal_a])))) =
             [name @ ''.gen-'' @ format_d (Generation ex_ing) @ ''.'' @ Name ex_ing @ ''.'' @
              Namespace ex_ing @ ''.net-contour.invalid'']) \<and>
   CHR ''.'' \<notin> set ''svc-a'' \<and> CHR ''.'' \<notin> set ''ns'' \<and>
   probe_host ''svc-a'' 7 ''foo'' ''ns'' = ''svc-a.gen-7.foo.ns.net-contour.invalid'' \<and>
   probe_host ''svc-a'' (- 12) ''foo.bar'' ''ns'' = ''svc-a.gen--12.foo.bar.ns.net-contour.invalid''"
proof -
  obtain childIng where h:
    "MakeEndpointProbeIngress ex_decls ex_ctx ex_ing [ex_proxy_external_ba, ex_proxy_internal_a] = Some childIng"
    using MakeEndpointProbeIngress_Some by blast
  have p: "map rule_services (Rules (the (MakeEndpointProbeIngress ex_decls ex_ctx ex_ing [ex_proxy_external_ba, ex_proxy_internal_a]))) =
     [[''svc-a''], [''svc-a''], [''svc-b'']]"
    by code_simp
  have q: "map Hosts (Rules (the (MakeEndpointProbeIngress ex_decls ex_ctx ex_ing [ex_proxy_external_ba, ex_proxy_internal_a]))) =
     [[''svc-a.gen-7.foo.ns.net-contour.invalid''],
      [''svc-a.gen-7.foo.ns.net-contour.invalid''],
      [''svc-b.gen-7.foo.ns.net-contour.invalid'']]"
    by code_simp
  have l: "CHR ''.'' \<notin> set ''svc-a'' \<and> CHR ''.'' \<notin> set ''ns'' \<and>
   probe_host ''svc-a'' 7 ''foo'' ''ns'' = ''svc-a.gen-7.foo.ns.net-contour.invalid'' \<and>
   probe_host ''svc-a'' (- 12) ''foo.bar'' ''ns'' = ''svc-a.gen--12.foo.bar.ns.net-contour.invalid''"
    by code_simp
  from p h have "Rules childIng \<noteq> []" by auto
  then have m: "hd (Rules childIng) \<in> set (Rules childIng)" by simp
  from host_per_service[OF h] have
    "\<forall>r \<in> set (Rules childIng).
        \<exists>name. rule_services r = [name] \<and>
           Hosts r =
             [name @ ''.gen-'' @ format_d (Generation ex_ing) @ ''.'' @ Name ex_ing @ ''.'' @
              Namespace ex_ing @ ''.net-contour.invalid'']"
    by (rule conjunct1)
  from bspec[OF this m] have e:
    "\<exists>name. rule_services (hd (Rules childIng)) = [name] \<and>
           Hosts (hd (Rules childIng)) =
             [name @ ''.gen-'' @ format_d (Generation ex_ing) @ ''.'' @ Name ex_ing @ ''.'' @
              Namespace ex_ing @ ''.net-contour.invalid'']" .
  have t: "the (MakeEndpointProbeIngress ex_decls ex_ctx ex_ing [ex_proxy_external_ba, ex_proxy_internal_a]) = childIng"
    by (simp only: h option.sel)
  have nn: "MakeEndpointProbeIngress ex_decls ex_ctx ex_ing [ex_proxy_external_ba, ex_proxy_internal_a] \<noteq> None"
    by (simp only: h) simp
  show ?thesis
    using nn p q e l unfolding t by (intro conjI) blast+
qed

text \<open>
  The hosts are not unique across the child ingress: a service seen on both visibilities
  has two rules with one host.
\<close>

theorem host_shared_by_visibilities_counterexample:
  "probed_pairs (MakeEndpointProbeIngress ex_decls ex_ctx ex_ing [ex_proxy_external_ba, ex_proxy_internal_a]) =
     [(''svc-a'', ''ClusterLocal''), (''svc-a'', ''ExternalIP''), (''svc-b'', ''ExternalIP'')] \<and>
   probe_hosts (MakeEndpointProbeIngress ex_decls ex_ctx ex_ing [ex_proxy_external_ba, ex_proxy_internal_a]) =
     [''svc-a.gen-7.foo.ns.net-contour.invalid'',
      ''svc-a.gen-7.foo.ns.net-contour.invalid'',
      ''svc-b.gen-7.foo.ns.net-contour.invalid''] \<and>
   \<not> distinct (probe_hosts (MakeEndpointProbeIngress ex_decls ex_ctx ex_ing [ex_proxy_external_ba, ex_proxy_internal_a]))"
  by code_simp

text \<open>
  C7, as amended. A previous proxy whose status is not \<^verbatim>\<open>valid\<close>, or whose class annotation
  is the class name of no visibility class, contributes nothing: the service map and the
  child ingress are those of the run on the previous state without this proxy, the other
  rounds keeping their orders of visit, and the function returns a child ingress and does
  not fail. The backends of the proxy are not probed on its account: a service that
  neither the ingress nor another proxy names gets no rule. The other proxies count as
  before: every service that a valid proxy with a visibility names has an entry in the
  merged map that holds this visibility.
\<close>

theorem skipped_proxy_contributes_nothing:
  assumes "CurrentStatus proxy \<noteq> ''valid'' \<or>
     (\<forall>(v, class) \<in> set (VisibilityClasses ctx (length before)).
        class \<noteq> index_string (proxy_Annotations proxy) (ClassKey d))"
  shows "merged_services d ctx ing (before @ proxy # after) =
           merged_services d (without_round (length before) ctx) ing (before @ after) \<and>
         MakeEndpointProbeIngress d ctx ing (before @ proxy # after) =
           MakeEndpointProbeIngress d (without_round (length before) ctx) ing (before @ after) \<and>
         MakeEndpointProbeIngress d ctx ing (before @ proxy # after) \<noteq> None \<and>
         (\<forall>n. fmlookup (ServiceNames d ing) n = None \<and> n \<notin> set (concat (map proxy_backends (before @ after))) \<longrightarrow>
              n \<notin> set (probed_services (MakeEndpointProbeIngress d ctx ing (before @ proxy # after)))) \<and>
         (\<forall>i < length (before @ proxy # after). \<forall>n \<in> set (proxy_backends ((before @ proxy # after) ! i)).
              CurrentStatus ((before @ proxy # after) ! i) = ''valid'' \<and>
              proxy_visibility d ctx i ((before @ proxy # after) ! i) \<noteq> [] \<longrightarrow>
              (\<exists>si. fmlookup (merged_services d ctx ing (before @ proxy # after)) n = Some si \<and>
                    proxy_visibility d ctx i ((before @ proxy # after) ! i) |\<in>| RawVisibilities si))"
proof -
  let ?ps = "before @ proxy # after" and ?k = "length before" and ?sns0 = "ServiceNames d ing"
  let ?ctx' = "without_round (length before) ctx"
  have "merge_proxies d ctx 0 ?ps ?sns0 =
        merge_proxies d ctx (Suc ?k) after (merge_proxy d ctx ?k proxy (merge_proxies d ctx 0 before ?sns0))"
    by (simp add: merge_proxies_append)
  also have "\<dots> = merge_proxies d ctx (Suc ?k) after (merge_proxies d ctx 0 before ?sns0)"
    by (simp only: merge_proxy_skip[OF assms])
  also have "\<dots> = merge_proxies d ?ctx' ?k after (merge_proxies d ?ctx' 0 before ?sns0)"
    by (simp add: merge_proxies_without_round_before merge_proxies_without_round_after)
  also have "\<dots> = merge_proxies d ?ctx' 0 (before @ after) ?sns0"
    by (simp add: merge_proxies_append)
  finally have m: "merged_services d ctx ing ?ps = merged_services d ?ctx' ing (before @ after)"
    by (simp add: merged_services_def)
  then have e: "MakeEndpointProbeIngress d ctx ing ?ps = MakeEndpointProbeIngress d ?ctx' ing (before @ after)"
    by (simp add: MakeEndpointProbeIngress_def)
  have s: "MakeEndpointProbeIngress d ctx ing ?ps \<noteq> None"
    by (simp add: MakeEndpointProbeIngress_def Let_def)
  have f: "n \<notin> set (probed_services (MakeEndpointProbeIngress d ctx ing ?ps))"
    if "fmlookup ?sns0 n = None" and "n \<notin> set (concat (map proxy_backends (before @ after)))" for n
  proof
    assume "n \<in> set (probed_services (MakeEndpointProbeIngress d ctx ing ?ps))"
    then have "n |\<in>| fmdom (merged_services d ?ctx' ing (before @ after))"
      using probed_services_in_map[of n d ctx ing ?ps] m by simp
    then have "n |\<in>| fmdom ?sns0 \<or> n \<in> obs_Name ` set (observations_from d ?ctx' 0 (before @ after))"
      by (auto simp: merged_services_dom observations_def fset_of_list.rep_eq)
    with that(1) have "n \<in> obs_Name ` set (observations_from d ?ctx' 0 (before @ after))"
      by (auto simp: fmdom_notI)
    with observations_from_names[of d ?ctx' 0 "before @ after"] that(2) show False
      by blast
  qed
  have g: "\<exists>si. fmlookup (merged_services d ctx ing ?ps) n = Some si \<and>
                proxy_visibility d ctx i (?ps ! i) |\<in>| RawVisibilities si"
    if "i < length ?ps" and "n \<in> set (proxy_backends (?ps ! i))"
      and "CurrentStatus (?ps ! i) = ''valid''" and "proxy_visibility d ctx i (?ps ! i) \<noteq> []" for i n
  proof -
    from in_proxy_observations[OF that(3,4,2)] obtain ob where
      ob: "ob \<in> set (proxy_observations d ctx i (?ps ! i))" and
      nm: "obs_Name ob = n" and vs: "obs_Visibility ob = proxy_visibility d ctx i (?ps ! i)"
      by blast
    from proxy_observations_in[OF that(1), of d ctx 0] ob
    have "ob \<in> set (observations d ctx ?ps)"
      by (auto simp: observations_def)
    from fold_observe_member[OF this, of ?sns0] nm vs show ?thesis
      by (simp add: merged_services_fold)
  qed
  from m e s f g show ?thesis by blast
qed

text \<open>An instance: a proxy that is not valid, between two proxies that count.\<close>

theorem skipped_proxy_contributes_nothing_witness:
  "CurrentStatus ex_proxy_invalid \<noteq> ''valid'' \<and>
   proxy_backends ex_proxy_invalid = [''svc-z''] \<and>
   probed_pairs (MakeEndpointProbeIngress ex_decls ex_ctx ex_ing [ex_proxy_internal_a, ex_proxy_invalid, ex_proxy_external_ba]) =
     [(''svc-a'', ''ClusterLocal''), (''svc-a'', ''ExternalIP''), (''svc-b'', ''ExternalIP'')] \<and>
   MakeEndpointProbeIngress ex_decls ex_ctx ex_ing ([ex_proxy_internal_a] @ ex_proxy_invalid # [ex_proxy_external_ba]) =
     MakeEndpointProbeIngress ex_decls (without_round (length [ex_proxy_internal_a]) ex_ctx) ex_ing
       ([ex_proxy_internal_a] @ [ex_proxy_external_ba]) \<and>
   MakeEndpointProbeIngress ex_decls ex_ctx ex_ing ([ex_proxy_internal_a] @ ex_proxy_invalid # [ex_proxy_external_ba]) \<noteq> None \<and>
   ''svc-z'' \<notin> set (probed_services
      (MakeEndpointProbeIngress ex_decls ex_ctx ex_ing ([ex_proxy_internal_a] @ ex_proxy_invalid # [ex_proxy_external_ba]))) \<and>
   (\<exists>si. fmlookup (merged_services ex_decls ex_ctx ex_ing ([ex_proxy_internal_a] @ ex_proxy_invalid # [ex_proxy_external_ba]))
            ''svc-b'' = Some si \<and>
         ''ExternalIP'' |\<in>| RawVisibilities si)"
proof -
  let ?ps = "[ex_proxy_internal_a] @ ex_proxy_invalid # [ex_proxy_external_ba]"
  have h: "CurrentStatus ex_proxy_invalid \<noteq> ''valid''"
    by (simp add: ex_proxy_invalid_def)
  then have h': "CurrentStatus ex_proxy_invalid \<noteq> ''valid'' \<or>
     (\<forall>(v, class) \<in> set (VisibilityClasses ex_ctx (length [ex_proxy_internal_a])).
        class \<noteq> index_string (proxy_Annotations ex_proxy_invalid) (ClassKey ex_decls))"
    by (rule disjI1)
  note t = skipped_proxy_contributes_nothing[OF h', of ex_ing "[ex_proxy_external_ba]"]
  have b: "proxy_backends ex_proxy_invalid = [''svc-z'']"
    by code_simp
  have p: "probed_pairs (MakeEndpointProbeIngress ex_decls ex_ctx ex_ing [ex_proxy_internal_a, ex_proxy_invalid, ex_proxy_external_ba]) =
     [(''svc-a'', ''ClusterLocal''), (''svc-a'', ''ExternalIP''), (''svc-b'', ''ExternalIP'')]"
    by code_simp
  have z: "fmlookup (ServiceNames ex_decls ex_ing) ''svc-z'' = None \<and>
      ''svc-z'' \<notin> set (concat (map proxy_backends ([ex_proxy_internal_a] @ [ex_proxy_external_ba])))"
    by code_simp
  have i: "2 < length ?ps \<and> ''svc-b'' \<in> set (proxy_backends (?ps ! 2)) \<and>
      CurrentStatus (?ps ! 2) = ''valid'' \<and> proxy_visibility ex_decls ex_ctx 2 (?ps ! 2) = ''ExternalIP''"
    by code_simp
  then have i': "proxy_visibility ex_decls ex_ctx 2 (?ps ! 2) \<noteq> []"
    by simp
  from t z have z': "''svc-z'' \<notin> set (probed_services (MakeEndpointProbeIngress ex_decls ex_ctx ex_ing ?ps))"
    by blast
  from t i i' have "\<exists>si. fmlookup (merged_services ex_decls ex_ctx ex_ing ?ps) ''svc-b'' = Some si \<and>
         proxy_visibility ex_decls ex_ctx 2 (?ps ! 2) |\<in>| RawVisibilities si"
    by blast
  with i have b': "\<exists>si. fmlookup (merged_services ex_decls ex_ctx ex_ing ?ps) ''svc-b'' = Some si \<and>
         ''ExternalIP'' |\<in>| RawVisibilities si"
    by simp
  from t h b p z' b' show ?thesis by blast
qed

text \<open>
  The claim as the spec words it, that the backends of such a proxy are probed, fails: the
  only backend of a proxy that is not valid gets no rule, and gets one once the status of
  the proxy is \<^verbatim>\<open>valid\<close>.
\<close>

theorem skipped_proxy_backend_not_probed_counterexample:
  "CurrentStatus ex_proxy_invalid \<noteq> ''valid'' \<and>
   proxy_backends ex_proxy_invalid = [''svc-z''] \<and>
   ''svc-z'' \<notin> set (probed_services (MakeEndpointProbeIngress ex_decls ex_ctx ex_ing [ex_proxy_invalid])) \<and>
   ''svc-z'' \<in> set (probed_services
      (MakeEndpointProbeIngress ex_decls ex_ctx ex_ing [ex_proxy_invalid\<lparr>CurrentStatus := ''valid''\<rparr>]))"
  by code_simp

text \<open>
  C8. The child ingress that the function returns carries the annotation
  \<^verbatim>\<open>EndpointsProbeKey\<close> with the value \<^verbatim>\<open>true\<close>, whatever the annotations of the parent,
  and exactly one owner reference: a controller reference that names the parent ingress by
  name and UID.
\<close>

theorem probe_marker_and_owner:
  assumes "MakeEndpointProbeIngress d ctx ing previousState = Some childIng"
  shows "fmlookup (Annotations childIng) (EndpointsProbeKey d) = Some ''true'' \<and>
         OwnerReferences childIng = [NewControllerRef ing] \<and>
         Controller (NewControllerRef ing) = Some True \<and>
         ref_Name (NewControllerRef ing) = Name ing \<and>
         ref_UID (NewControllerRef ing) = UID ing"
  using assms
  by (auto simp: MakeEndpointProbeIngress_def Let_def UnionMaps_def NewControllerRef_def)

text \<open>An instance.\<close>

theorem probe_marker_and_owner_witness:
  "MakeEndpointProbeIngress ex_decls ex_ctx ex_ing [ex_proxy_external_ba] \<noteq> None \<and>
   fmlookup (Annotations (the (MakeEndpointProbeIngress ex_decls ex_ctx ex_ing [ex_proxy_external_ba])))
     (EndpointsProbeKey ex_decls) = Some ''true'' \<and>
   OwnerReferences (the (MakeEndpointProbeIngress ex_decls ex_ctx ex_ing [ex_proxy_external_ba])) =
     [NewControllerRef ex_ing]"
proof -
  obtain childIng where h: "MakeEndpointProbeIngress ex_decls ex_ctx ex_ing [ex_proxy_external_ba] = Some childIng"
    using MakeEndpointProbeIngress_Some by blast
  from probe_marker_and_owner[OF h] h show ?thesis by simp
qed

text \<open>
  C10. The child ingress has the HTTP option enabled, and every rule of it has one host,
  a visibility that is among the visibilities recorded for its service in the merged
  service map, and one HTTP path with one split, of 100 percent, to the service by its
  recorded port, in the namespace of the parent ingress.
\<close>

theorem rule_shape:
  assumes "MakeEndpointProbeIngress d ctx ing previousState = Some childIng"
  shows "HTTPOption childIng = HTTPOptionEnabled \<and>
         (\<forall>r \<in> set (Rules childIng).
            \<exists>name si path split.
              fmlookup (merged_services d ctx ing previousState) name = Some si \<and>
              length (Hosts r) = 1 \<and>
              Visibility r |\<in>| RawVisibilities si \<and>
              HTTP r = Some \<lparr>Paths = [path]\<rparr> \<and>
              Splits path = [split] \<and>
              Percent split = 100 \<and>
              ServiceName split = name \<and>
              ServiceNamespace split = Namespace ing \<and>
              ServicePort split = Port si)"
proof -
  have a: "HTTPOption childIng = HTTPOptionEnabled"
    using assms by (auto simp: MakeEndpointProbeIngress_def Let_def)
  have b: "\<exists>name si path split.
              fmlookup (merged_services d ctx ing previousState) name = Some si \<and>
              length (Hosts r) = 1 \<and>
              Visibility r |\<in>| RawVisibilities si \<and>
              HTTP r = Some \<lparr>Paths = [path]\<rparr> \<and>
              Splits path = [split] \<and>
              Percent split = 100 \<and>
              ServiceName split = name \<and>
              ServiceNamespace split = Namespace ing \<and>
              ServicePort split = Port si"
    if "r \<in> set (Rules childIng)" for r
  proof -
    from in_Rules[OF assms that] obtain n si v where
      l: "fmlookup (merged_services d ctx ing previousState) n = Some si" and
      v: "v |\<in>| RawVisibilities si" and r: "r = probe_rule ing n si v"
      by blast
    let ?split = "\<lparr>ServiceName = n, ServiceNamespace = Namespace ing, ServicePort = Port si, Percent = 100\<rparr>"
    let ?path = "\<lparr>Path = [], path_RewriteHost = RewriteHost si, Splits = [?split]\<rparr>"
    have "length (Hosts r) = 1" "Visibility r |\<in>| RawVisibilities si" "HTTP r = Some \<lparr>Paths = [?path]\<rparr>"
      "Splits ?path = [?split]" "Percent ?split = 100" "ServiceName ?split = n"
      "ServiceNamespace ?split = Namespace ing" "ServicePort ?split = Port si"
      using v by (simp_all add: r probe_rule_def)
    with l show ?thesis by blast
  qed
  from a b show ?thesis by blast
qed

text \<open>An instance.\<close>

theorem rule_shape_witness:
  "MakeEndpointProbeIngress ex_decls_a ex_ctx ex_ing_a [ex_proxy_internal_a] \<noteq> None \<and>
   Rules (the (MakeEndpointProbeIngress ex_decls_a ex_ctx ex_ing_a [ex_proxy_internal_a])) \<noteq> [] \<and>
   HTTPOption (the (MakeEndpointProbeIngress ex_decls_a ex_ctx ex_ing_a [ex_proxy_internal_a])) = HTTPOptionEnabled \<and>
   (\<exists>name si path split.
      fmlookup (merged_services ex_decls_a ex_ctx ex_ing_a [ex_proxy_internal_a]) name = Some si \<and>
      length (Hosts (hd (Rules (the (MakeEndpointProbeIngress ex_decls_a ex_ctx ex_ing_a [ex_proxy_internal_a]))))) = 1 \<and>
      Visibility (hd (Rules (the (MakeEndpointProbeIngress ex_decls_a ex_ctx ex_ing_a [ex_proxy_internal_a])))) |\<in>| RawVisibilities si \<and>
      HTTP (hd (Rules (the (MakeEndpointProbeIngress ex_decls_a ex_ctx ex_ing_a [ex_proxy_internal_a])))) = Some \<lparr>Paths = [path]\<rparr> \<and>
      Splits path = [split] \<and>
      Percent split = 100 \<and>
      ServiceName split = name \<and>
      ServiceNamespace split = Namespace ex_ing_a \<and>
      ServicePort split = Port si)"
proof -
  obtain childIng where h: "MakeEndpointProbeIngress ex_decls_a ex_ctx ex_ing_a [ex_proxy_internal_a] = Some childIng"
    using MakeEndpointProbeIngress_Some by blast
  have "Rules (the (MakeEndpointProbeIngress ex_decls_a ex_ctx ex_ing_a [ex_proxy_internal_a])) \<noteq> []"
    by code_simp
  with h have n: "Rules childIng \<noteq> []" by simp
  then have "hd (Rules childIng) \<in> set (Rules childIng)" by simp
  with rule_shape[OF h] n h show ?thesis by simp
qed

end
